theory Spec2Isabelle
  imports Main "HOL-Library.Char_ord" "HOL-Library.List_Lexorder" "HOL-Library.Sublist"
begin

section \<open>The manifest\<close>

text \<open>
  Both programs read one JSON document. A parsed JSON object is an association list in the
  order of the document, with pairwise distinct keys; a missing top-level member is
  \<open>None\<close> (jq's \<open>null\<close>, JavaScript's \<open>undefined\<close>). Every member of the five
  sections is an array of strings. Strings are byte strings (UTF-8).
\<close>

type_synonym 'v obj = "(string \<times> 'v) list"

record manifest =
  SCXML_APP_LISTS :: "string list obj option"
  SCXML_TARGET_APP_LISTS :: "string list obj option"
  SCXML_EMAIL_CONFIG :: "string list obj option"
  SCXML_GIT_CONFIG :: "string list obj option"
  SCXML_JFROG_CONFIG :: "string list obj option"


section \<open>Text between the commands of generate\_workflow.sh\<close>

abbreviation newline :: char where "newline \<equiv> CHR 0x0A"
abbreviation backslash :: char where "backslash \<equiv> CHR 0x5C"
abbreviation dquote :: char where "dquote \<equiv> CHR 0x22"
abbreviation backtick :: char where "backtick \<equiv> CHR 0x60"
abbreviation tab :: char where "tab \<equiv> CHR 0x09"
abbreviation nul :: char where "nul \<equiv> CHR 0x00"

text \<open>\<open>jq -r\<close> writes every string it outputs raw, followed by a newline.\<close>

definition jq_raw :: "string list \<Rightarrow> string" where
  "jq_raw vs = concat (map (\<lambda>v. v @ [newline]) vs)"

text \<open>
  A reader of lines (\<open>sort\<close>) splits its input at newlines; a last line without a newline
  still counts.
\<close>

fun split_lines :: "string \<Rightarrow> string \<Rightarrow> string list" where
  "split_lines acc [] = (if acc = [] then [] else [rev acc])"
| "split_lines acc (c # cs) =
     (if c = newline then rev acc # split_lines [] cs else split_lines (c # acc) cs)"

text \<open>
  \<open>sort -u\<close>: the lines in order, one of each. The order is the byte order of the C locale
  (the script sets no locale; another collation permutes the lines but keeps the set).
\<close>

definition sort_u :: "string \<Rightarrow> string" where
  "sort_u inp = jq_raw (remdups_adj (sort (split_lines [] inp)))"

text \<open>
  \<open>while read v; do ... done\<close>, with one variable, no \<open>-r\<close> and the default \<open>IFS\<close>. The
  builtin reads up to the next unescaped newline. A backslash takes the next character
  literally and disappears; a backslash before a newline disappears with the newline and
  the line goes on. Unescaped blanks at both ends of the line are removed. At the end of
  input \<open>read\<close> fails, so the loop body does not run for a last line without its newline.
  NUL bytes are skipped. A NUL taken literally after a backslash ends the value instead
  (bash 5.2): the value is what precedes it, without leading blanks, or the byte 0x01 when
  nothing precedes it. The function returns the value of the variable in each run of the
  body.
\<close>

definition ifs_blank :: "char \<times> bool \<Rightarrow> bool" where
  "ifs_blank ce = (case ce of (c, escaped) \<Rightarrow> (c = CHR '' '' \<or> c = tab) \<and> escaped = False)"

definition strip_ifs :: "(char \<times> bool) list \<Rightarrow> string" where
  "strip_ifs l = map fst (rev (dropWhile ifs_blank (rev (dropWhile ifs_blank l))))"

definition read_value :: "(char \<times> bool) list \<Rightarrow> string" where
  "read_value l =
     (if (nul, True) \<in> set l
      then (case dropWhile ifs_blank (takeWhile (\<lambda>ce. ce \<noteq> (nul, True)) l) of
              [] \<Rightarrow> [CHR 0x01]
            | ce # ces \<Rightarrow> map fst (ce # ces))
      else strip_ifs l)"

fun while_read :: "(char \<times> bool) list \<Rightarrow> string \<Rightarrow> string list" where
  "while_read acc [] = []"
| "while_read acc (c # cs) =
     (if c = backslash then
        (case cs of
           [] \<Rightarrow> []
         | d # ds \<Rightarrow> if d = newline then while_read acc ds
                     else while_read ((d, True) # acc) ds)
      else if c = newline then read_value (rev acc) # while_read [] cs
      else if c = nul then while_read acc cs
      else while_read ((c, False) # acc) cs)"

definition read_loop :: "string \<Rightarrow> string list" where
  "read_loop inp = while_read [] inp"

text \<open>Command substitution \<open>$(...)\<close> drops NUL bytes and every trailing newline.\<close>

definition drop_nul :: "string \<Rightarrow> string" where
  "drop_nul s = filter (\<lambda>c. c \<noteq> nul) s"

definition cmd_subst :: "string \<Rightarrow> string" where
  "cmd_subst out = rev (dropWhile (\<lambda>c. c = newline) (rev (drop_nul out)))"

text \<open>
  A string that passes through \<open>jq -r\<close>, a pipe and \<open>read\<close> unchanged: one line, no
  backslash, no NUL, no blank at either end.
\<close>

definition plain :: "string \<Rightarrow> bool" where
  "plain s = (list_all (\<lambda>c. c \<noteq> newline \<and> c \<noteq> backslash \<and> c \<noteq> nul) s \<and>
              (case s of [] \<Rightarrow> True | c # _ \<Rightarrow> c \<noteq> CHR '' '' \<and> c \<noteq> tab) \<and>
              (case rev s of [] \<Rightarrow> True | c # _ \<Rightarrow> c \<noteq> CHR '' '' \<and> c \<noteq> tab))"

section \<open>The jq programs\<close>

text \<open>
  A jq process is its exit status and its standard output. A runtime error ends jq with
  status 5 and no output. The member \<open>k\<close> of a section is absent when the section or
  the member is: \<open>.a.b\<close> on \<open>null\<close> is \<open>null\<close>.
\<close>

type_synonym proc = "nat \<times> string"

definition member_at :: "'v obj option \<Rightarrow> string \<Rightarrow> 'v option" where
  "member_at sec k = (case sec of None \<Rightarrow> None | Some ob \<Rightarrow> map_of ob k)"

text \<open>
  \<open>contains\<close> on two arrays: every element of the argument is contained in some element
  of the input; one string is contained in another when it occurs in it as a substring.
\<close>

definition jv_array_contains :: "string list \<Rightarrow> string list \<Rightarrow> bool" where
  "jv_array_contains a b = list_all (\<lambda>bel. list_ex (\<lambda>ael. sublist bel ael) a) b"

text \<open>\<open>jq -r ".SCXML_TARGET_APP_LISTS.${LOB_KEY} | contains([\"${TARGET_APP}\"])"\<close>\<close>

definition jq_contains :: "manifest \<Rightarrow> string \<Rightarrow> string \<Rightarrow> proc" where
  "jq_contains m k a =
     (case member_at (SCXML_TARGET_APP_LISTS m) k of
        None \<Rightarrow> (5, [])
      | Some apps \<Rightarrow> (0, jq_raw [if jv_array_contains apps [a] then ''true'' else ''false'']))"

text \<open>\<open>jq -r ".SCXML_APP_LISTS.${LOB_KEY}[0]"\<close>: \<open>null\<close> is printed as the word null.\<close>

definition jq_lob_name :: "manifest \<Rightarrow> string \<Rightarrow> proc" where
  "jq_lob_name m k =
     (case member_at (SCXML_APP_LISTS m) k of
        None \<Rightarrow> (0, jq_raw [''null''])
      | Some [] \<Rightarrow> (0, jq_raw [''null''])
      | Some (n # _) \<Rightarrow> (0, jq_raw [n]))"

text \<open>\<open>jq -r ".SCXML_TARGET_APP_LISTS.${LOB_KEY}[]"\<close>: \<open>null\<close> cannot be iterated.\<close>

definition jq_iterate :: "manifest \<Rightarrow> string \<Rightarrow> proc" where
  "jq_iterate m k =
     (case member_at (SCXML_TARGET_APP_LISTS m) k of
        None \<Rightarrow> (5, [])
      | Some apps \<Rightarrow> (0, jq_raw apps))"

section \<open>The step Validate LOB and Target App Combination\<close>

text \<open>
  The runner pastes the two inputs into the script, and the script pastes them into the
  jq programs. The embedding covers a LOB key that is a jq field name and a one-line
  target app without a character that is special inside the double quotes of bash or jq;
  for other inputs the script is another program and the result is \<open>None\<close>.
\<close>

definition jq_field_name :: "string \<Rightarrow> bool" where
  "jq_field_name k =
     (case k of
        [] \<Rightarrow> False
      | c # cs \<Rightarrow>
          c \<in> set ''ABCDEFGHIJKLMNOPQRSTUVWXYZabcdefghijklmnopqrstuvwxyz_'' \<and>
          list_all (\<lambda>d. d \<in> set ''ABCDEFGHIJKLMNOPQRSTUVWXYZabcdefghijklmnopqrstuvwxyz_0123456789'') cs)"

definition shell_plain :: "string \<Rightarrow> bool" where
  "shell_plain a = list_all (\<lambda>c. c \<notin> set [dquote, backslash, CHR ''$'', backtick, nul, newline]) a"

text \<open>
  What the step leaves behind: the names and values it echoes to \<open>GITHUB_OUTPUT\<close> as
  \<open>name=value\<close>, as pairs in the order written, and exit status 0; or the target apps
  listed in the summary and \<open>exit 1\<close>; or the status of a failed command that ended
  the script early. A value with a line break spans lines of the file; how the runner
  reads the file is not part of the script. The script names no shell, so whether a
  failing command ends it (\<open>bash -e\<close>) is the runner's choice, the parameter
  \<open>errexit\<close>.
\<close>

datatype step_result =
    Valid "(string \<times> string) list"
  | Invalid "string list"
  | Aborted nat

fun exit_status :: "step_result \<Rightarrow> nat" where
  "exit_status (Valid _) = 0"
| "exit_status (Invalid _) = 1"
| "exit_status (Aborted n) = n"

definition validate_script :: "bool \<Rightarrow> manifest \<Rightarrow> string \<Rightarrow> string \<Rightarrow> step_result" where
  "validate_script errexit m LOB_KEY TARGET_APP =
     (let jq1 = jq_contains m LOB_KEY TARGET_APP;
          IS_VALID = cmd_subst (snd jq1)
      in if errexit \<and> 0 < fst jq1 then Aborted (fst jq1)
         else if IS_VALID = ''true'' then
           (let LOB_NAME = cmd_subst (snd (jq_lob_name m LOB_KEY))
            in Valid [(''valid'', ''true''), (''lob_name'', LOB_NAME), (''lob_key'', LOB_KEY)])
         else Invalid (read_loop (snd (jq_iterate m LOB_KEY))))"

definition validate_step :: "bool \<Rightarrow> manifest \<Rightarrow> string \<Rightarrow> string \<Rightarrow> step_result option" where
  "validate_step errexit m LOB_KEY TARGET_APP =
     (if jq_field_name LOB_KEY \<and> shell_plain TARGET_APP
      then Some (validate_script errexit m LOB_KEY TARGET_APP)
      else None)"

section \<open>The step Extract Additional Configuration\<close>

text \<open>
  \<open>jq -r '.SECTION.name[0] // ""'\<close>: the first element, or the empty string when the
  path ends in \<open>null\<close>. The alternative operator also swallows an error on its left, so
  this program never fails.
\<close>

definition jq_first_or_empty :: "string list obj option \<Rightarrow> string \<Rightarrow> proc" where
  "jq_first_or_empty sec k =
     (case member_at sec k of
        None \<Rightarrow> (0, jq_raw [[]])
      | Some [] \<Rightarrow> (0, jq_raw [[]])
      | Some (v # _) \<Rightarrow> (0, jq_raw [v]))"

definition config_script :: "manifest \<Rightarrow> string \<Rightarrow> (string \<times> string) list" where
  "config_script m LOB_KEY =
     (let EMAIL_DL = cmd_subst (snd (jq_first_or_empty (SCXML_EMAIL_CONFIG m) (LOB_KEY @ ''_teamEmailDL'')));
          GIT_REPO = cmd_subst (snd (jq_first_or_empty (SCXML_GIT_CONFIG m) ''GIT_Repo''));
          GIT_USER = cmd_subst (snd (jq_first_or_empty (SCXML_GIT_CONFIG m) ''GIT_userName''));
          ARTIFACTORY_USER =
            cmd_subst (snd (jq_first_or_empty (SCXML_JFROG_CONFIG m) ''SCXML_artifactoryUserID''));
          ARTIFACTORY_BASE_URL =
            cmd_subst (snd (jq_first_or_empty (SCXML_JFROG_CONFIG m) ''SCXML_searchArtifactoryBaseURL''))
      in [(''email_dl'', EMAIL_DL), (''git_repo'', GIT_REPO), (''git_user'', GIT_USER),
          (''artifactory_user'', ARTIFACTORY_USER), (''artifactory_url'', ARTIFACTORY_BASE_URL)])"

section \<open>The generator\<close>

text \<open>\<open>jq -r '.SCXML_APP_LISTS | keys[]'\<close>: the keys in byte order; \<open>null\<close> has no keys.\<close>

definition jq_keys :: "manifest \<Rightarrow> proc" where
  "jq_keys m =
     (case SCXML_APP_LISTS m of
        None \<Rightarrow> (5, [])
      | Some ob \<Rightarrow> (0, jq_raw (sort (map fst ob))))"

text \<open>\<open>jq -r '.SCXML_TARGET_APP_LISTS | to_entries[] | .value[]'\<close>\<close>

definition jq_values :: "manifest \<Rightarrow> proc" where
  "jq_values m =
     (case SCXML_TARGET_APP_LISTS m of
        None \<Rightarrow> (5, [])
      | Some ob \<Rightarrow> (0, jq_raw (concat (map snd ob))))"

text \<open>
  \<open>jq -r '.SCXML_APP_LISTS | keys | length'\<close> fails exactly when \<open>keys\<close> does; only
  its status matters here, the count is printed and not used.
\<close>

definition jq_keys_length_status :: "manifest \<Rightarrow> nat" where
  "jq_keys_length_status m = (case SCXML_APP_LISTS m of None \<Rightarrow> 5 | Some ob \<Rightarrow> 0)"

text \<open>
  The configuration file is missing, is not JSON, or is a JSON object of the shape of the
  manifest. The script stops with status 1 in the first two cases. Otherwise it writes the
  workflow; a failing jq at the head of a pipe does not stop it (no \<open>pipefail\<close>), the
  loop then has no line to read. \<open>LOB_COUNT=$(jq ...)\<close>, after the file is written, is a
  plain command: under \<open>set -e\<close> its failure ends the script with jq's status.
\<close>

datatype config_file = Missing | Not_json | Json manifest

record workflow_file =
  lob_key_options :: "string list"
  target_app_options :: "string list"

definition generate_workflow :: "config_file \<Rightarrow> nat \<times> workflow_file option" where
  "generate_workflow cf =
     (case cf of
        Missing \<Rightarrow> (1, None)
      | Not_json \<Rightarrow> (1, None)
      | Json m \<Rightarrow>
          (let w = \<lparr> lob_key_options = read_loop (snd (jq_keys m)),
                     target_app_options = read_loop (sort_u (snd (jq_values m))) \<rparr>
           in (jq_keys_length_status m, Some w)))"

section \<open>The form: src/scxml-ui/src/App.js\<close>

text \<open>
  \<open>obj[key]\<close> on a parsed object: the own member; else a member inherited from
  \<open>Object.prototype\<close>, which is the prototype object itself for \<open>__proto__\<close> and a
  function for the eleven other names; else \<open>undefined\<close>.
\<close>

datatype js_error = TypeError

datatype prototype_function =
    P_constructor | P_hasOwnProperty | P_isPrototypeOf | P_propertyIsEnumerable
  | P_toLocaleString | P_toString | P_valueOf
  | P_defineGetter | P_defineSetter | P_lookupGetter | P_lookupSetter

text \<open>
  The values that can reach the state \<open>targetApps\<close>: an array of strings, \<open>undefined\<close>,
  a function, an object that is not an array, or a string or boolean.
\<close>

datatype js_value =
    Arr "string list" | Undefined | Function prototype_function | Object_value | Primitive

definition object_prototype_functions :: "(string \<times> prototype_function) list" where
  "object_prototype_functions =
     [(''constructor'', P_constructor), (''hasOwnProperty'', P_hasOwnProperty),
      (''isPrototypeOf'', P_isPrototypeOf), (''propertyIsEnumerable'', P_propertyIsEnumerable),
      (''toLocaleString'', P_toLocaleString), (''toString'', P_toString),
      (''valueOf'', P_valueOf), (''__defineGetter__'', P_defineGetter),
      (''__defineSetter__'', P_defineSetter), (''__lookupGetter__'', P_lookupGetter),
      (''__lookupSetter__'', P_lookupSetter)]"

definition js_get :: "string list obj \<Rightarrow> string \<Rightarrow> js_value" where
  "js_get ob k =
     (case map_of ob k of
        Some v \<Rightarrow> Arr v
      | None \<Rightarrow>
          if k = ''__proto__'' then Object_value
          else (case map_of object_prototype_functions k of
                  Some f \<Rightarrow> Function f
                | None \<Rightarrow> Undefined))"

text \<open>
  A state setter called with a function takes it as an updater and stores what the
  function returns for the previous state; React calls it with no \<open>this\<close>. \<open>Object(x)\<close>
  is \<open>x\<close> for an object and a new object otherwise; \<open>toString\<close> returns a string;
  \<open>isPrototypeOf\<close> returns false for an argument that is no object; every other call
  needs an object as \<open>this\<close> and throws.
\<close>

fun is_object :: "js_value \<Rightarrow> bool" where
  "is_object (Arr l) = True"
| "is_object (Function f) = True"
| "is_object Object_value = True"
| "is_object Undefined = False"
| "is_object Primitive = False"

fun call_updater :: "prototype_function \<Rightarrow> js_value \<Rightarrow> js_error + js_value" where
  "call_updater P_constructor prev = Inr (if is_object prev then prev else Object_value)"
| "call_updater P_toString prev = Inr Primitive"
| "call_updater P_isPrototypeOf prev = (if is_object prev then Inl TypeError else Inr Primitive)"
| "call_updater P_hasOwnProperty prev = Inl TypeError"
| "call_updater P_propertyIsEnumerable prev = Inl TypeError"
| "call_updater P_toLocaleString prev = Inl TypeError"
| "call_updater P_valueOf prev = Inl TypeError"
| "call_updater P_defineGetter prev = Inl TypeError"
| "call_updater P_defineSetter prev = Inl TypeError"
| "call_updater P_lookupGetter prev = Inl TypeError"
| "call_updater P_lookupSetter prev = Inl TypeError"

fun setState :: "js_value \<Rightarrow> js_value \<Rightarrow> js_error + js_value" where
  "setState (Function f) prev = call_updater f prev"
| "setState (Arr l) prev = Inr (Arr l)"
| "setState Undefined prev = Inr Undefined"
| "setState Object_value prev = Inr Object_value"
| "setState Primitive prev = Inr Primitive"

text \<open>
  \<open>Object.keys\<close>: the keys that are array indices (canonical decimal numerals below
  \<open>2^32 - 1\<close>) in ascending numeric order, then the other keys in the order of the
  document.
\<close>

definition decimal_value :: "string \<Rightarrow> int" where
  "decimal_value k = fold (\<lambda>c n. 10 * n + (of_char c - 48)) k 0"

definition is_array_index :: "string \<Rightarrow> bool" where
  "is_array_index k =
     (case k of
        [] \<Rightarrow> False
      | c # cs \<Rightarrow>
          list_all (\<lambda>d. d \<in> set ''0123456789'') k \<and>
          (if c = CHR ''0'' then cs = [] else True) \<and>
          decimal_value k < 4294967295)"

definition Object_keys :: "'v obj \<Rightarrow> string list" where
  "Object_keys ob =
     sort_key decimal_value (filter is_array_index (map fst ob)) @
     filter (\<lambda>k. is_array_index k = False) (map fst ob)"

record app_state =
  jsonData :: "manifest option"
  lobList :: "string list"
  targetApps :: js_value
  lob :: string
  targetApp :: string
  projectName :: string
  releaseType :: string
  releaseDescription :: string
  loading :: bool
  message :: string

definition initial_state :: app_state where
  "initial_state =
     \<lparr> jsonData = None, lobList = [], targetApps = Arr [], lob = [], targetApp = [],
       projectName = [], releaseType = [], releaseDescription = [], loading = False, message = [] \<rparr>"

text \<open>
  The view: the paragraph Loading JSON while \<open>jsonData\<close> is null, else the form.
  \<open>targetApps.map\<close> throws when \<open>targetApps\<close> is not an array; nothing catches it.
\<close>

record form_view =
  select_lob_options :: "string list"
  select_lob_value :: string
  select_target_options :: "string list"
  select_target_value :: string
  select_target_disabled :: bool
  button_disabled :: bool
  button_label :: string
  message_shown :: "string option"

datatype view = Loading_JSON | Form form_view

definition render :: "app_state \<Rightarrow> js_error + view" where
  "render s =
     (case jsonData s of
        None \<Rightarrow> Inr Loading_JSON
      | Some data \<Rightarrow>
          (case targetApps s of
             Arr apps \<Rightarrow>
               Inr (Form \<lparr> select_lob_options = [] # lobList s,
                           select_lob_value = lob s,
                           select_target_options = [] # apps,
                           select_target_value = targetApp s,
                           select_target_disabled = (lob s = []),
                           button_disabled = loading s,
                           button_label = (if loading s then ''Triggering...'' else ''Trigger Workflow''),
                           message_shown = (if message s = [] then None else Some (message s)) \<rparr>)
           | Undefined \<Rightarrow> Inl TypeError
           | Function f \<Rightarrow> Inl TypeError
           | Object_value \<Rightarrow> Inl TypeError
           | Primitive \<Rightarrow> Inl TypeError))"

text \<open>
  1. The callback of \<open>axios.get(...).then\<close>. \<open>Object.keys(undefined)\<close> throws after
  \<open>setJsonData\<close> has been called; the \<open>catch\<close> logs it and the first update stays.
\<close>

definition load_resolved :: "manifest \<Rightarrow> app_state \<Rightarrow> app_state" where
  "load_resolved data s =
     (case SCXML_TARGET_APP_LISTS data of
        None \<Rightarrow> s\<lparr>jsonData := Some data\<rparr>
      | Some ob \<Rightarrow> s\<lparr>jsonData := Some data, lobList := Object_keys ob\<rparr>)"

text \<open>
  2. The effect with dependencies \<open>[lob, jsonData]\<close>. An updater that throws does so when
  React next renders; the component is unmounted either way.
\<close>

definition lob_effect :: "app_state \<Rightarrow> js_error + app_state" where
  "lob_effect s =
     (case jsonData s of
        None \<Rightarrow> Inr s
      | Some data \<Rightarrow>
          if lob s = [] then Inr s
          else (case SCXML_TARGET_APP_LISTS data of
                  None \<Rightarrow> Inl TypeError
                | Some ob \<Rightarrow>
                    (case setState (js_get ob (lob s)) (targetApps s) of
                       Inl e \<Rightarrow> Inl e
                     | Inr apps \<Rightarrow> Inr (s\<lparr>targetApps := apps, targetApp := []\<rparr>))))"

text \<open>
  A state update followed by what React does with it: the component renders, the effect
  runs when \<open>lob\<close> or \<open>jsonData\<close> differ from the last render, and its updates render
  the component again. An error thrown by a render or by the effect unmounts the
  component.
\<close>

definition commit :: "app_state \<Rightarrow> app_state \<Rightarrow> js_error + app_state" where
  "commit s s' =
     (case render s' of
        Inl e \<Rightarrow> Inl e
      | Inr v \<Rightarrow>
          if lob s' = lob s \<and> jsonData s' = jsonData s then Inr s'
          else (case lob_effect s' of
                  Inl e \<Rightarrow> Inl e
                | Inr s'' \<Rightarrow> (case render s'' of Inl e \<Rightarrow> Inl e | Inr v' \<Rightarrow> Inr s'')))"

definition on_load :: "manifest \<Rightarrow> app_state \<Rightarrow> js_error + app_state" where
  "on_load data s = commit s (load_resolved data s)"

definition onChange_lob :: "string \<Rightarrow> app_state \<Rightarrow> js_error + app_state" where
  "onChange_lob v s = commit s (s\<lparr>lob := v\<rparr>)"

definition onChange_targetApp :: "string \<Rightarrow> app_state \<Rightarrow> js_error + app_state" where
  "onChange_targetApp v s = commit s (s\<lparr>targetApp := v\<rparr>)"

text \<open>3. \<open>triggerWorkflow\<close>, up to the \<open>await\<close>, and its continuation.\<close>

datatype json = JString string | JObject "(string \<times> json) list"

record http_request =
  http_method :: string
  url :: string
  body :: json
  headers :: "(string \<times> string) list"

definition dispatch_body :: "app_state \<Rightarrow> json" where
  "dispatch_body s =
     JObject
       [(''ref'', JString ''main''),
        (''inputs'',
         JObject
           [(''lob'', JString (lob s)),
            (''target_app'', JString (targetApp s)),
            (''project_name'', JString (projectName s)),
            (''release_type'', JString (releaseType s)),
            (''release_description'', JString (releaseDescription s))])]"

definition triggerWorkflow :: "string option \<Rightarrow> app_state \<Rightarrow> app_state \<times> http_request" where
  "triggerWorkflow REACT_APP_GITHUB_TOKEN s =
     (s\<lparr>loading := True, message := []\<rparr>,
      \<lparr> http_method = ''POST'',
        url = ''https://api.github.com/repos/nehaa13/SCXML/actions/workflows/scxml.yml/dispatches'',
        body = dispatch_body s,
        headers =
          [(''Authorization'',
            ''token '' @ (case REACT_APP_GITHUB_TOKEN of None \<Rightarrow> ''undefined'' | Some t \<Rightarrow> t)),
           (''Accept'', ''application/vnd.github.v3+json'')] \<rparr>)"

definition triggerWorkflow_settled :: "bool \<Rightarrow> app_state \<Rightarrow> app_state" where
  "triggerWorkflow_settled ok s =
     s\<lparr>message := (if ok then ''Workflow triggered successfully!'' else ''Error: Workflow trigger failed.''),
       loading := False\<rparr>"

text \<open>
  A click on the trigger button: there is no button unless the form is rendered, and a
  disabled button does not call its handler.
\<close>

definition click_trigger ::
  "string option \<Rightarrow> app_state \<Rightarrow> (app_state \<times> http_request list) option" where
  "click_trigger tok s =
     (case render s of
        Inl e \<Rightarrow> None
      | Inr Loading_JSON \<Rightarrow> None
      | Inr (Form f) \<Rightarrow>
          if button_disabled f then Some (s, [])
          else Some (fst (triggerWorkflow tok s), [snd (triggerWorkflow tok s)]))"

text \<open>
  The events that reach the component. A select reports the value of one of its options:
  the placeholder has the value \<open>""\<close>, every other option has no value attribute and
  reports its text with ASCII white space stripped and collapsed. \<open>step\<close> is what the
  component does with an event; an event that the current view does not offer stops with
  \<open>Not_offered\<close>.
\<close>

definition ascii_ws :: "char \<Rightarrow> bool" where
  "ascii_ws c = (c \<in> set [CHR '' '', tab, newline, CHR 0x0C, CHR 0x0D])"

fun collapse_ws :: "bool \<Rightarrow> string \<Rightarrow> string" where
  "collapse_ws pending [] = []"
| "collapse_ws pending (c # cs) =
     (if ascii_ws c then collapse_ws True cs
      else (if pending then [CHR '' ''] else []) @ c # collapse_ws False cs)"

definition option_value :: "string \<Rightarrow> string" where
  "option_value item = collapse_ws False (dropWhile ascii_ws item)"

datatype event =
    Load_resolved manifest
  | Load_rejected
  | Change_lob string
  | Change_targetApp string
  | Change_projectName string
  | Change_releaseType string
  | Change_releaseDescription string
  | Click_trigger
  | Dispatch_settled bool

datatype stop = Thrown js_error | Not_offered

definition quiet :: "js_error + app_state \<Rightarrow> stop + (app_state \<times> http_request list)" where
  "quiet r = (case r of Inl e \<Rightarrow> Inl (Thrown e) | Inr s \<Rightarrow> Inr (s, []))"

definition on_form ::
  "app_state \<Rightarrow> (form_view \<Rightarrow> stop + (app_state \<times> http_request list)) \<Rightarrow>
   stop + (app_state \<times> http_request list)" where
  "on_form s handler =
     (case render s of
        Inl e \<Rightarrow> Inl Not_offered
      | Inr Loading_JSON \<Rightarrow> Inl Not_offered
      | Inr (Form f) \<Rightarrow> handler f)"

fun step :: "string option \<Rightarrow> event \<Rightarrow> app_state \<Rightarrow> stop + (app_state \<times> http_request list)" where
  "step tok (Load_resolved data) s = quiet (on_load data s)"
| "step tok Load_rejected s = Inr (s, [])"
| "step tok (Change_lob v) s =
     on_form s (\<lambda>f. if v \<in> set ([] # map option_value (tl (select_lob_options f)))
                     then quiet (onChange_lob v s) else Inl Not_offered)"
| "step tok (Change_targetApp v) s =
     on_form s (\<lambda>f. if select_target_disabled f = False \<and>
                        v \<in> set ([] # map option_value (tl (select_target_options f)))
                     then quiet (onChange_targetApp v s) else Inl Not_offered)"
| "step tok (Change_projectName v) s = on_form s (\<lambda>f. quiet (commit s (s\<lparr>projectName := v\<rparr>)))"
| "step tok (Change_releaseType v) s = on_form s (\<lambda>f. quiet (commit s (s\<lparr>releaseType := v\<rparr>)))"
| "step tok (Change_releaseDescription v) s =
     on_form s (\<lambda>f. quiet (commit s (s\<lparr>releaseDescription := v\<rparr>)))"
| "step tok Click_trigger s =
     (case click_trigger tok s of None \<Rightarrow> Inl Not_offered | Some r \<Rightarrow> Inr r)"
| "step tok (Dispatch_settled ok) s = quiet (commit s (triggerWorkflow_settled ok s))"

text \<open>
  A session is the component together with the requests that are in flight: the GET of
  the manifest, sent once when the component is mounted, and the dispatches sent by
  \<open>triggerWorkflow\<close>. The network delivers the answer to a request only while the request
  is in flight; every request that a step sends is in flight until its answer arrives.
\<close>

record session =
  form :: app_state
  get_in_flight :: bool
  posts_in_flight :: nat

definition mounted :: "app_state \<Rightarrow> session" where
  "mounted s = \<lparr> form = s, get_in_flight = True, posts_in_flight = 0 \<rparr>"

fun network_offers :: "session \<Rightarrow> event \<Rightarrow> bool" where
  "network_offers ss (Load_resolved data) = get_in_flight ss"
| "network_offers ss Load_rejected = get_in_flight ss"
| "network_offers ss (Dispatch_settled ok) = (0 < posts_in_flight ss)"
| "network_offers ss (Change_lob v) = True"
| "network_offers ss (Change_targetApp v) = True"
| "network_offers ss (Change_projectName v) = True"
| "network_offers ss (Change_releaseType v) = True"
| "network_offers ss (Change_releaseDescription v) = True"
| "network_offers ss Click_trigger = True"

fun answered :: "event \<Rightarrow> bool \<times> nat" where
  "answered (Load_resolved data) = (True, 0)"
| "answered Load_rejected = (True, 0)"
| "answered (Dispatch_settled ok) = (False, 1)"
| "answered (Change_lob v) = (False, 0)"
| "answered (Change_targetApp v) = (False, 0)"
| "answered (Change_projectName v) = (False, 0)"
| "answered (Change_releaseType v) = (False, 0)"
| "answered (Change_releaseDescription v) = (False, 0)"
| "answered Click_trigger = (False, 0)"

definition session_step ::
  "string option \<Rightarrow> event \<Rightarrow> session \<Rightarrow> stop + (session \<times> http_request list)" where
  "session_step tok ev ss =
     (if network_offers ss ev
      then (case step tok ev (form ss) of
              Inl e \<Rightarrow> Inl e
            | Inr p \<Rightarrow>
                Inr (\<lparr> form = fst p,
                       get_in_flight = (if fst (answered ev) then False else get_in_flight ss),
                       posts_in_flight = posts_in_flight ss - snd (answered ev) + length (snd p) \<rparr>,
                     snd p))
      else Inl Not_offered)"

fun session_run ::
  "string option \<Rightarrow> event list \<Rightarrow> session \<Rightarrow> stop + (session \<times> http_request list)" where
  "session_run tok [] ss = Inr (ss, [])"
| "session_run tok (ev # evs) ss =
     (case session_step tok ev ss of
        Inl e \<Rightarrow> Inl e
      | Inr p \<Rightarrow>
          (case session_run tok evs (fst p) of
             Inl e \<Rightarrow> Inl e
           | Inr q \<Rightarrow> Inr (fst q, snd p @ snd q)))"

text \<open>The session of a component mounted in the state \<open>s\<close>: its last state and what it sent.\<close>

definition run ::
  "string option \<Rightarrow> event list \<Rightarrow> app_state \<Rightarrow> stop + (app_state \<times> http_request list)" where
  "run tok evs s =
     (case session_run tok evs (mounted s) of
        Inl e \<Rightarrow> Inl e
      | Inr p \<Rightarrow> Inr (form (fst p), snd p))"

text \<open>Reading a request body.\<close>

fun json_member :: "json \<Rightarrow> string \<Rightarrow> json option" where
  "json_member (JObject members) name = map_of members name"
| "json_member (JString v) name = None"

fun json_names :: "json \<Rightarrow> string list" where
  "json_names (JObject members) = map fst members"
| "json_names (JString v) = []"

definition request_inputs :: "http_request \<Rightarrow> json" where
  "request_inputs r = (case json_member (body r) ''inputs'' of None \<Rightarrow> JObject [] | Some j \<Rightarrow> j)"

text \<open>What a run sent, and the state it ended in.\<close>

definition requests_of :: "stop + (app_state \<times> http_request list) \<Rightarrow> http_request list" where
  "requests_of r = (case r of Inl e \<Rightarrow> [] | Inr p \<Rightarrow> snd p)"

definition state_of :: "stop + (app_state \<times> http_request list) \<Rightarrow> app_state option" where
  "state_of r = (case r of Inl e \<Rightarrow> None | Inr p \<Rightarrow> Some (fst p))"

text \<open>An input of a request, as a string.\<close>

definition input_of :: "http_request \<Rightarrow> string \<Rightarrow> string" where
  "input_of r name =
     (case json_member (request_inputs r) name of
        None \<Rightarrow> []
      | Some (JString v) \<Rightarrow> v
      | Some (JObject members) \<Rightarrow> [])"

text \<open>
  The selections that the dropdowns allow, used as the invariant of a session: the target
  apps shown are an array; no LOB is selected before the manifest is loaded; with a key of
  \<open>SCXML_TARGET_APP_LISTS\<close> selected as LOB the apps shown are those configured for it and
  the selected target app is unset or the value of one of their options.
\<close>

definition selection_ok :: "app_state \<Rightarrow> bool" where
  "selection_ok s =
     (case targetApps s of
        Arr shown \<Rightarrow>
          (case jsonData s of
             None \<Rightarrow> lob s = []
           | Some m \<Rightarrow>
               (case member_at (SCXML_TARGET_APP_LISTS m) (lob s) of
                  None \<Rightarrow> True
                | Some apps \<Rightarrow>
                    if lob s = [] then True
                    else shown = apps \<and> targetApp s \<in> set ([] # map option_value apps)))
      | Undefined \<Rightarrow> False
      | Function f \<Rightarrow> False
      | Object_value \<Rightarrow> False
      | Primitive \<Rightarrow> False)"

text \<open>
  A manifest whose LOB keys the options of the form report unchanged: no key of
  \<open>SCXML_TARGET_APP_LISTS\<close> has white space at an end, a run of white space, or a white
  space character other than the space.
\<close>

definition regular_keys :: "manifest \<Rightarrow> bool" where
  "regular_keys m =
     (case SCXML_TARGET_APP_LISTS m of
        None \<Rightarrow> True
      | Some ob \<Rightarrow> list_all (\<lambda>k. option_value k = k) (map fst ob))"

fun regular_load :: "event \<Rightarrow> bool" where
  "regular_load (Load_resolved data) = regular_keys data"
| "regular_load Load_rejected = True"
| "regular_load (Change_lob v) = True"
| "regular_load (Change_targetApp v) = True"
| "regular_load (Change_projectName v) = True"
| "regular_load (Change_releaseType v) = True"
| "regular_load (Change_releaseDescription v) = True"
| "regular_load Click_trigger = True"
| "regular_load (Dispatch_settled ok) = True"

text \<open>
  The invariant of a session: the selection is one that the dropdowns allow, the manifest
  is not loaded while its request is in flight, at most one dispatch is in flight, and
  \<open>loading\<close> is set exactly while one is.
\<close>

definition session_ok :: "session \<Rightarrow> bool" where
  "session_ok ss =
     (selection_ok (form ss) \<and>
      (if get_in_flight ss then jsonData (form ss) = None else True) \<and>
      posts_in_flight ss \<le> 1 \<and>
      loading (form ss) = (0 < posts_in_flight ss))"

text \<open>
  With regular keys every LOB option is a key of \<open>SCXML_TARGET_APP_LISTS\<close> that the
  option reports unchanged, and the selected LOB is unset or such a key; there is no
  option before the manifest is loaded.
\<close>

definition keys_ok :: "app_state \<Rightarrow> bool" where
  "keys_ok s =
     (case jsonData s of
        None \<Rightarrow> lobList s = []
      | Some m \<Rightarrow>
          (case SCXML_TARGET_APP_LISTS m of
             None \<Rightarrow> lobList s = [] \<and> lob s = []
           | Some ob \<Rightarrow>
               list_all (\<lambda>k. option_value k = k \<and> k \<in> set (map fst ob)) (lobList s) \<and>
               (if lob s = [] then True else lob s \<in> set (map fst ob))))"

section \<open>The accessors of the specification\<close>

text \<open>
  \<open>lobKeys\<close> is what the form exposes, \<open>Object.keys(res.data.SCXML_TARGET_APP_LISTS)\<close>;
  \<open>targetApps_of\<close> is the configured set, empty for an absent key.
\<close>

definition lobKeys :: "manifest \<Rightarrow> string list" where
  "lobKeys m = lobList (load_resolved m initial_state)"

definition targetApps_of :: "manifest \<Rightarrow> string \<Rightarrow> string set" where
  "targetApps_of m k =
     (case member_at (SCXML_TARGET_APP_LISTS m) k of None \<Rightarrow> {} | Some apps \<Rightarrow> set apps)"

section \<open>Example manifests and states of the form\<close>

definition manifest_scenario :: manifest where
  "manifest_scenario =
     \<lparr> SCXML_APP_LISTS = Some [(''CL1'', [''Consumer Lending''])],
       SCXML_TARGET_APP_LISTS = Some [(''CL1'', [''AppX'', ''AppY''])],
       SCXML_EMAIL_CONFIG = Some [(''CL1_teamEmailDL'', [''cl1-team@example.com''])],
       SCXML_GIT_CONFIG = Some [(''GIT_Repo'', [''scxml-repo'']), (''GIT_userName'', [''svc-git''])],
       SCXML_JFROG_CONFIG = None \<rparr>"

definition manifest_two_lobs :: manifest where
  "manifest_two_lobs =
     \<lparr> SCXML_APP_LISTS = Some [(''CL1'', [''Consumer Lending'']), (''CL2'', [''Cards''])],
       SCXML_TARGET_APP_LISTS = Some [(''CL1'', [''AppXY'', ''AppZ'']), (''CL2'', [''AppX''])],
       SCXML_EMAIL_CONFIG = None, SCXML_GIT_CONFIG = None, SCXML_JFROG_CONFIG = None \<rparr>"

definition manifest_no_name :: manifest where
  "manifest_no_name =
     \<lparr> SCXML_APP_LISTS = Some [(''CL1'', [])],
       SCXML_TARGET_APP_LISTS = Some [(''CL1'', [''AppX'', ''AppY''])],
       SCXML_EMAIL_CONFIG = None, SCXML_GIT_CONFIG = None, SCXML_JFROG_CONFIG = None \<rparr>"

definition manifest_extra_lob :: manifest where
  "manifest_extra_lob =
     \<lparr> SCXML_APP_LISTS = Some [(''CL1'', [''Consumer Lending'']), (''CL2'', [''Cards''])],
       SCXML_TARGET_APP_LISTS = Some [(''CL1'', [''AppX'', ''AppY''])],
       SCXML_EMAIL_CONFIG = None, SCXML_GIT_CONFIG = None, SCXML_JFROG_CONFIG = None \<rparr>"

definition manifest_backslash :: manifest where
  "manifest_backslash =
     \<lparr> SCXML_APP_LISTS = Some [(''CL1'', [''Consumer Lending''])],
       SCXML_TARGET_APP_LISTS = Some [(''CL1'', [''Dept'' @ [backslash] @ ''App'', ''AppY''])],
       SCXML_EMAIL_CONFIG = None, SCXML_GIT_CONFIG = None, SCXML_JFROG_CONFIG = None \<rparr>"

definition manifest_padded_key :: manifest where
  "manifest_padded_key =
     \<lparr> SCXML_APP_LISTS = Some [('' CL1'', [''Consumer Lending''])],
       SCXML_TARGET_APP_LISTS = Some [('' CL1'', [''AppX'', ''AppY''])],
       SCXML_EMAIL_CONFIG = None, SCXML_GIT_CONFIG = None, SCXML_JFROG_CONFIG = None \<rparr>"

definition manifest_inherited_name :: manifest where
  "manifest_inherited_name =
     \<lparr> SCXML_APP_LISTS = Some [(''CL1'', [''Consumer Lending'']), (''constructor '', [''Builders''])],
       SCXML_TARGET_APP_LISTS = Some [(''CL1'', [''AppX'', ''AppY'']), (''constructor '', [''AppZ''])],
       SCXML_EMAIL_CONFIG = None, SCXML_GIT_CONFIG = None, SCXML_JFROG_CONFIG = None \<rparr>"

definition form_loaded :: app_state where
  "form_loaded = load_resolved manifest_two_lobs initial_state"

definition form_CL1_AppZ :: app_state where
  "form_CL1_AppZ =
     form_loaded\<lparr>lob := ''CL1'', targetApps := Arr [''AppXY'', ''AppZ''], targetApp := ''AppZ''\<rparr>"

section \<open>Properties of the text utilities\<close>

text \<open>
  Lines that are \<open>plain\<close> pass through \<open>jq -r\<close>, \<open>sort -u\<close> and \<open>while read\<close>
  unchanged.
\<close>

lemma split_lines_line:
  "newline \<notin> set s \<Longrightarrow> split_lines acc (s @ newline # rest) = (rev acc @ s) # split_lines [] rest"
  by (induction s arbitrary: acc) auto

lemma split_lines_jq_raw:
  "\<forall>s \<in> set xs. newline \<notin> set s \<Longrightarrow> split_lines [] (jq_raw xs) = xs"
proof (induction xs)
  case Nil
  then show ?case by (simp add: jq_raw_def)
next
  case (Cons x xs)
  have "jq_raw (x # xs) = x @ newline # jq_raw xs" by (simp add: jq_raw_def)
  with Cons show ?case using split_lines_line [of x "[]" "jq_raw xs"] by simp
qed

lemma read_value_unescaped: "read_value (map (\<lambda>c. (c, False)) s) = strip_ifs (map (\<lambda>c. (c, False)) s)"
  by (auto simp: read_value_def)

lemma while_read_line:
  "newline \<notin> set s \<Longrightarrow> backslash \<notin> set s \<Longrightarrow> nul \<notin> set s \<Longrightarrow>
   while_read acc (s @ newline # rest) =
     read_value (rev acc @ map (\<lambda>c. (c, False)) s) # while_read [] rest"
  by (induction s arbitrary: acc) auto

lemma dropWhile_ifs_plain:
  "(case s of [] \<Rightarrow> True | c # _ \<Rightarrow> c \<noteq> CHR '' '' \<and> c \<noteq> tab) \<Longrightarrow>
   dropWhile ifs_blank (map (\<lambda>c. (c, False)) s) = map (\<lambda>c. (c, False)) s"
  by (cases s) (auto simp: ifs_blank_def)

lemma strip_ifs_plain: "plain s \<Longrightarrow> strip_ifs (map (\<lambda>c. (c, False)) s) = s"
proof -
  assume p: "plain s"
  let ?f = "\<lambda>c. (c, False)"
  have 1: "dropWhile ifs_blank (map ?f s) = map ?f s"
    using p by (intro dropWhile_ifs_plain) (simp add: plain_def)
  have 2: "dropWhile ifs_blank (map ?f (rev s)) = map ?f (rev s)"
    using p by (intro dropWhile_ifs_plain) (simp add: plain_def)
  have "strip_ifs (map ?f s) = map fst (rev (dropWhile ifs_blank (rev (map ?f s))))"
    by (simp only: strip_ifs_def 1)
  also have "rev (map ?f s) = map ?f (rev s)" by (rule rev_map)
  also have "map fst (rev (dropWhile ifs_blank (map ?f (rev s)))) = map fst (rev (map ?f (rev s)))"
    by (simp only: 2)
  also have "\<dots> = s" by (simp add: rev_map comp_def)
  finally show ?thesis .
qed

lemma drop_nul_id: "nul \<notin> set s \<Longrightarrow> drop_nul s = s"
  by (auto simp: drop_nul_def filter_id_conv)

lemma plain_chars: "plain s \<Longrightarrow> newline \<notin> set s \<and> backslash \<notin> set s \<and> nul \<notin> set s"
  by (auto simp: plain_def list_all_iff)

lemma while_read_jq_raw: "\<forall>s \<in> set xs. plain s \<Longrightarrow> while_read [] (jq_raw xs) = xs"
proof (induction xs)
  case Nil
  then show ?case by (simp add: jq_raw_def)
next
  case (Cons x xs)
  have "jq_raw (x # xs) = x @ newline # jq_raw xs" by (simp add: jq_raw_def)
  moreover have "plain x" using Cons.prems by simp
  ultimately show ?case
    using Cons while_read_line [of x "[]" "jq_raw xs"] plain_chars [of x] strip_ifs_plain [of x]
    by (simp add: read_value_unescaped)
qed

lemma read_loop_jq_raw: "\<forall>s \<in> set xs. plain s \<Longrightarrow> read_loop (jq_raw xs) = xs"
  using while_read_jq_raw [of xs] by (simp add: read_loop_def)

lemma sort_u_jq_raw:
  "\<forall>s \<in> set xs. newline \<notin> set s \<Longrightarrow> sort_u (jq_raw xs) = jq_raw (remdups_adj (sort xs))"
  by (simp add: sort_u_def split_lines_jq_raw)

lemma distinct_remdups_adj_sorted: "sorted xs \<Longrightarrow> distinct (remdups_adj xs)"
  by (induction xs rule: remdups_adj.induct) (auto)

lemma read_loop_sort_u:
  "\<forall>s \<in> set xs. plain s \<Longrightarrow> read_loop (sort_u (jq_raw xs)) = remdups_adj (sort xs)"
  using plain_chars by (simp add: sort_u_jq_raw read_loop_jq_raw)

lemma cmd_subst_true: "cmd_subst (jq_raw [''true'']) = ''true''"
  by (simp add: cmd_subst_def jq_raw_def drop_nul_def)

lemma cmd_subst_false: "cmd_subst (jq_raw [''false'']) = ''false''"
  by (simp add: cmd_subst_def jq_raw_def drop_nul_def)

section \<open>Properties of the validation step\<close>

text \<open>
  For a LOB key that is present the step passes exactly when the target app occurs as a
  substring of one of the configured apps; a configured app always passes.
\<close>

lemma jv_array_contains_single:
  "jv_array_contains apps [a] \<longleftrightarrow> (\<exists>b \<in> set apps. sublist a b)"
  by (simp add: jv_array_contains_def list_ex_iff)

lemma validate_script_present:
  "member_at (SCXML_TARGET_APP_LISTS m) k = Some apps \<Longrightarrow>
   validate_script errexit m k a =
     (if \<exists>b \<in> set apps. sublist a b
      then Valid [(''valid'', ''true''),
                  (''lob_name'', cmd_subst (snd (jq_lob_name m k))), (''lob_key'', k)]
      else Invalid (read_loop (jq_raw apps)))"
  by (simp add: validate_script_def jq_contains_def jq_iterate_def jv_array_contains_single
      cmd_subst_true cmd_subst_false Let_def)

lemma validate_script_absent:
  "member_at (SCXML_TARGET_APP_LISTS m) k = None \<Longrightarrow>
   validate_script errexit m k a = (if errexit then Aborted 5 else Invalid [])"
  by (simp add: validate_script_def jq_contains_def jq_iterate_def cmd_subst_def drop_nul_def
      read_loop_def Let_def)

lemma validate_step_member:
  assumes "jq_field_name k" and "shell_plain a"
    and "member_at (SCXML_TARGET_APP_LISTS m) k = Some apps" and "a \<in> set apps"
  shows "\<exists>outs. validate_step errexit m k a = Some (Valid outs)"
proof -
  have "\<exists>b \<in> set apps. sublist a b" using assms(4) by blast
  then show ?thesis using assms(1-3) by (simp add: validate_step_def validate_script_present)
qed

lemma validate_step_valid_iff:
  assumes "jq_field_name k" and "shell_plain a"
    and "member_at (SCXML_TARGET_APP_LISTS m) k = Some apps"
  shows "(\<exists>outs. validate_step errexit m k a = Some (Valid outs)) \<longleftrightarrow> (\<exists>b \<in> set apps. sublist a b)"
  using assms by (simp add: validate_step_def validate_script_present)

lemma validate_step_invalid_lists:
  assumes "jq_field_name k" and "shell_plain a"
    and "member_at (SCXML_TARGET_APP_LISTS m) k = Some apps"
    and "\<forall>b \<in> set apps. \<not> sublist a b" and "\<forall>b \<in> set apps. plain b"
  shows "validate_step errexit m k a = Some (Invalid apps)"
  using assms by (simp add: validate_step_def validate_script_present read_loop_jq_raw)

lemma validate_step_unknown:
  assumes "jq_field_name k" and "shell_plain a"
    and "member_at (SCXML_TARGET_APP_LISTS m) k = None"
  shows "validate_step errexit m k a = Some (if errexit then Aborted 5 else Invalid [])"
  using assms by (simp add: validate_step_def validate_script_absent)

lemmas eval_defs = validate_step_def validate_script_def jq_field_name_def shell_plain_def
  jq_contains_def member_at_def jv_array_contains_def jq_raw_def cmd_subst_def drop_nul_def
  jq_lob_name_def jq_iterate_def read_loop_def read_value_def strip_ifs_def ifs_blank_def
  sublist_Cons_right targetApps_of_def

text \<open>The match is case-sensitive, and a target app of no LOB is rejected with the list.\<close>

lemma validate_is_case_sensitive:
  "validate_step True manifest_two_lobs ''CL1'' ''appz'' = Some (Invalid [''AppXY'', ''AppZ'']) \<and>
   validate_step True manifest_two_lobs ''CL1'' ''AppQ'' = Some (Invalid [''AppXY'', ''AppZ''])"
  by (simp add: eval_defs manifest_two_lobs_def)

text \<open>
  C1. The step should accept a target app exactly when it is a member of the apps of the
  LOB, by string equality. The check is jq's \<open>contains\<close>, which accepts a substring:
  \<open>AppX\<close>, an app of \<open>CL2\<close> only, passes for \<open>CL1\<close> because \<open>CL1\<close> has \<open>AppXY\<close>.
\<close>

theorem validate_accepts_substring:
  "validate_step True manifest_two_lobs ''CL1'' ''AppX'' =
     Some (Valid [(''valid'', ''true''), (''lob_name'', ''Consumer Lending''), (''lob_key'', ''CL1'')])
   \<and> ''AppX'' \<notin> targetApps_of manifest_two_lobs ''CL1''"
  by (simp add: eval_defs manifest_two_lobs_def)

text \<open>
  C3. A target app outside the apps of the LOB should end the step with a non-zero status
  and the list of the valid apps. For the same pair as above the step ends with status 0.
\<close>

theorem validate_passes_foreign_app:
  "''AppX'' \<notin> targetApps_of manifest_two_lobs ''CL1'' \<and>
   map_option exit_status (validate_step False manifest_two_lobs ''CL1'' ''AppX'') = Some 0"
  by (simp add: eval_defs manifest_two_lobs_def)

section \<open>Properties of the resolved configuration\<close>

text \<open>
  The five auxiliary values are the first element of their sequence, or empty when the
  section, the name or the element is absent; the programs behind them never fail.
\<close>

lemma cmd_subst_jq_raw:
  "nul \<notin> set v \<Longrightarrow> (case rev v of [] \<Rightarrow> True | c # _ \<Rightarrow> c \<noteq> newline) \<Longrightarrow> cmd_subst (jq_raw [v]) = v"
  by (cases "rev v") (auto simp: cmd_subst_def jq_raw_def drop_nul_id)

lemma jq_first_or_empty_status: "fst (jq_first_or_empty sec k) = 0"
  by (simp add: jq_first_or_empty_def split: option.splits list.splits)

lemma jq_first_or_empty_absent:
  "member_at sec k = None \<Longrightarrow> cmd_subst (snd (jq_first_or_empty sec k)) = []"
  by (simp add: jq_first_or_empty_def cmd_subst_def jq_raw_def drop_nul_def)

lemma jq_first_or_empty_present:
  "member_at sec k = Some (v # vs) \<Longrightarrow> cmd_subst (snd (jq_first_or_empty sec k)) = cmd_subst (jq_raw [v])"
  by (simp add: jq_first_or_empty_def)

lemma config_script_names:
  "map fst (config_script m k) =
     [''email_dl'', ''git_repo'', ''git_user'', ''artifactory_user'', ''artifactory_url'']"
  by (simp add: config_script_def Let_def)

lemma lob_name_of_valid:
  assumes "validate_step errexit m k a = Some (Valid outs)"
  shows "outs =
           [(''valid'', ''true''),
            (''lob_name'',
             case member_at (SCXML_APP_LISTS m) k of
               None \<Rightarrow> ''null''
             | Some [] \<Rightarrow> ''null''
             | Some (n # ns) \<Rightarrow> cmd_subst (jq_raw [n])),
            (''lob_key'', k)]"
proof -
  have "validate_script errexit m k a = Valid outs"
    using assms by (simp add: validate_step_def split: if_splits)
  then have "outs = [(''valid'', ''true''), (''lob_name'', cmd_subst (snd (jq_lob_name m k))), (''lob_key'', k)]"
    by (auto simp: validate_script_def Let_def split: if_splits)
  moreover have "cmd_subst (jq_raw [''null'']) = ''null''"
    by (simp add: cmd_subst_def jq_raw_def drop_nul_def)
  ultimately show ?thesis
    by (simp add: jq_lob_name_def split: option.splits list.splits)
qed

text \<open>
  C6. On a valid pair the LOB name should be the first display string, or the empty string
  when there is none. The program for the name has no alternative: without a display
  string jq prints the word null, and that is the name.
\<close>

theorem lob_name_null:
  "member_at (SCXML_APP_LISTS manifest_no_name) ''CL1'' = Some [] \<and>
   validate_step True manifest_no_name ''CL1'' ''AppX'' =
     Some (Valid [(''valid'', ''true''), (''lob_name'', ''null''), (''lob_key'', ''CL1'')])"
  by (simp add: eval_defs manifest_no_name_def)

section \<open>Properties of the generator\<close>


lemma generate_target_app_options:
  assumes "SCXML_TARGET_APP_LISTS m = Some T" and "\<forall>a \<in> set (concat (map snd T)). plain a"
  shows "map_option target_app_options (snd (generate_workflow (Json m))) =
           Some (remdups_adj (sort (concat (map snd T))))"
  using assms by (simp add: generate_workflow_def jq_values_def read_loop_sort_u)

lemma set_target_app_options:
  "set (remdups_adj (sort (concat (map snd T)))) = (\<Union>(k, apps) \<in> set T. set apps)"
  by auto

lemma distinct_target_app_options: "distinct (remdups_adj (sort (xs :: string list)))"
  by (simp add: distinct_remdups_adj_sorted)

lemma lobKeys_set: "SCXML_TARGET_APP_LISTS m = Some T \<Longrightarrow> set (lobKeys m) = set (map fst T)"
  by (auto simp: lobKeys_def load_resolved_def Object_keys_def)

lemmas gen_defs = generate_workflow_def jq_keys_def jq_keys_length_status_def jq_values_def jq_raw_def read_loop_def
  read_value_def drop_nul_def
  sort_u_def strip_ifs_def ifs_blank_def lobKeys_def load_resolved_def Object_keys_def is_array_index_def
  initial_state_def

text \<open>
  The pairs used below can be chosen in the generated workflow: its options for
  \<open>manifest_two_lobs\<close> and \<open>manifest_no_name\<close>. For a LOB that has a display name and no
  target apps, also an option, jq fails on \<open>null\<close>: under \<open>bash -e\<close> the step ends with
  jq's status before it lists anything.
\<close>

lemma options_two_lobs:
  "generate_workflow (Json manifest_two_lobs) =
     (0, Some \<lparr> lob_key_options = [''CL1'', ''CL2''],
                 target_app_options = [''AppX'', ''AppXY'', ''AppZ''] \<rparr>)"
  by (simp add: gen_defs manifest_two_lobs_def)

lemma options_no_name:
  "generate_workflow (Json manifest_no_name) =
     (0, Some \<lparr> lob_key_options = [''CL1''], target_app_options = [''AppX'', ''AppY''] \<rparr>)"
  by (simp add: gen_defs manifest_no_name_def)

lemma validate_lob_without_target_apps:
  "validate_step True manifest_extra_lob ''CL2'' ''AppX'' = Some (Aborted 5) \<and>
   validate_step False manifest_extra_lob ''CL2'' ''AppX'' = Some (Invalid [])"
  by (simp add: eval_defs manifest_extra_lob_def)




text \<open>
  C9. The target app options should be the apps of all LOBs, each once. The loop reads
  them without \<open>-r\<close>: the app made of \<open>Dept\<close>, a backslash and \<open>App\<close> is written as \<open>DeptApp\<close>,
  which is an app of no LOB.
\<close>

theorem generated_option_loses_backslash:
  "map_option target_app_options (snd (generate_workflow (Json manifest_backslash))) =
     Some [''AppY'', ''DeptApp''] \<and>
   targetApps_of manifest_backslash ''CL1'' = {''Dept'' @ [backslash] @ ''App'', ''AppY''}"
  by (simp add: gen_defs manifest_backslash_def targetApps_of_def member_at_def)

section \<open>Properties of the form\<close>

lemmas ui_defs = on_load_def load_resolved_def commit_def lob_effect_def render_def
  onChange_lob_def onChange_targetApp_def click_trigger_def triggerWorkflow_def
  triggerWorkflow_settled_def dispatch_body_def quiet_def on_form_def option_value_def
  ascii_ws_def Object_keys_def is_array_index_def js_get_def object_prototype_functions_def
  request_inputs_def requests_of_def state_of_def initial_state_def
  session_step_def mounted_def run_def

text \<open>
  C4 (as amended). The request that \<open>triggerWorkflow\<close> sends is a POST to the dispatch
  endpoint of the workflow. Its body has the members \<open>ref\<close>, always \<open>main\<close>, and
  \<open>inputs\<close>, whose members are named \<open>lob\<close>, \<open>target_app\<close>, \<open>project_name\<close>,
  \<open>release_type\<close> and \<open>release_description\<close> and carry the current selection and
  release metadata. The token is in a header, not in the body.
\<close>

theorem dispatch_request_shape:
  "http_method (snd (triggerWorkflow tok s)) = ''POST'' \<and>
   url (snd (triggerWorkflow tok s)) =
     ''https://api.github.com/repos/nehaa13/SCXML/actions/workflows/scxml.yml/dispatches'' \<and>
   json_names (body (snd (triggerWorkflow tok s))) = [''ref'', ''inputs''] \<and>
   json_member (body (snd (triggerWorkflow tok s))) ''ref'' = Some (JString ''main'') \<and>
   request_inputs (snd (triggerWorkflow tok s)) =
     JObject
       [(''lob'', JString (lob s)), (''target_app'', JString (targetApp s)),
        (''project_name'', JString (projectName s)), (''release_type'', JString (releaseType s)),
        (''release_description'', JString (releaseDescription s))]"
  by (simp add: triggerWorkflow_def dispatch_body_def request_inputs_def)

text \<open>C4 as stated fails: no input of the request is named \<open>lob_key\<close>.\<close>

theorem dispatch_request_has_no_lob_key:
  "json_names (request_inputs (snd (triggerWorkflow None initial_state))) =
     [''lob'', ''target_app'', ''project_name'', ''release_type'', ''release_description''] \<and>
   json_member (request_inputs (snd (triggerWorkflow None initial_state))) ''lob_key'' = None"
  by (simp add: triggerWorkflow_def dispatch_body_def request_inputs_def)

text \<open>
  C5. Every change of the selected LOB should reset the selected target app, a change
  back to unset included; the comment in the effect says so too. The effect returns before
  the reset when the new LOB is unset: after \<open>CL1\<close> and \<open>AppX\<close> have been selected,
  setting the LOB back to unset leaves \<open>AppX\<close> selected.
\<close>

theorem unset_lob_keeps_target_app:
  "map_option (\<lambda>s. (lob s, targetApp s))
     (state_of (run None [Load_resolved manifest_scenario, Change_lob ''CL1'', Change_targetApp ''AppX'']
        initial_state)) = Some (''CL1'', ''AppX'') \<and>
   map_option (\<lambda>s. (lob s, targetApp s))
     (state_of (run None [Load_resolved manifest_scenario, Change_lob ''CL1'', Change_targetApp ''AppX'',
        Change_lob []] initial_state)) = Some ([], ''AppX'')"
  by (simp add: ui_defs manifest_scenario_def)

lemma input_of_triggerWorkflow:
  "input_of (snd (triggerWorkflow tok s)) ''lob'' = lob s \<and>
   input_of (snd (triggerWorkflow tok s)) ''target_app'' = targetApp s"
  by (simp add: input_of_def triggerWorkflow_def dispatch_body_def request_inputs_def)

lemma render_Form:
  "render s = Inr (Form f) \<Longrightarrow>
   \<exists>data apps. jsonData s = Some data \<and> targetApps s = Arr apps \<and>
     select_lob_options f = [] # lobList s \<and> select_target_options f = [] # apps \<and>
     select_target_disabled f = (lob s = []) \<and> button_disabled f = loading s"
  by (auto simp: render_def split: option.splits js_value.splits)

lemma render_Arr:
  "jsonData s = Some data \<Longrightarrow> targetApps s = Arr apps \<Longrightarrow> \<exists>f. render s = Inr (Form f)"
  by (simp add: render_def)

lemma render_not_Arr:
  "jsonData s = Some data \<Longrightarrow> render s = Inr w \<Longrightarrow> \<exists>apps. targetApps s = Arr apps"
  by (auto simp: render_def split: js_value.splits)

lemma render_Inl:
  "render s = Inl e \<Longrightarrow> jsonData s \<noteq> None \<and> (\<forall>apps. targetApps s \<noteq> Arr apps)"
  by (auto simp: render_def split: option.splits js_value.splits)

lemma on_form_Inr:
  "on_form s h = Inr r \<Longrightarrow> \<exists>f. render s = Inr (Form f) \<and> h f = Inr r"
  by (auto simp: on_form_def split: sum.splits view.splits)

lemma on_form_Thrown:
  "on_form s h = Inl (Thrown e) \<Longrightarrow> \<exists>f. render s = Inr (Form f) \<and> h f = Inl (Thrown e)"
  by (auto simp: on_form_def split: sum.splits view.splits)

lemma quiet_Inr: "quiet x = Inr (s', sent) \<Longrightarrow> x = Inr s' \<and> sent = []"
  by (auto simp: quiet_def split: sum.splits)

lemma quiet_Thrown: "quiet x = Inl (Thrown e) \<Longrightarrow> x = Inl e"
  by (auto simp: quiet_def split: sum.splits)

lemma commit_same_deps:
  "commit s s' = Inr s'' \<Longrightarrow> lob s' = lob s \<Longrightarrow> jsonData s' = jsonData s \<Longrightarrow> s'' = s'"
  by (auto simp: commit_def split: sum.splits)

lemma commit_same_deps_Inl:
  "commit s s' = Inl e \<Longrightarrow> lob s' = lob s \<Longrightarrow> jsonData s' = jsonData s \<Longrightarrow> render s' = Inl e"
  by (auto simp: commit_def split: sum.splits)

lemma commit_Inr:
  assumes "commit s s1 = Inr s2"
  shows "(\<exists>w. render s1 = Inr w) \<and>
         (if lob s1 = lob s \<and> jsonData s1 = jsonData s then s2 = s1
          else lob_effect s1 = Inr s2 \<and> (\<exists>w. render s2 = Inr w))"
  using assms by (auto simp: commit_def split: sum.splits if_splits)

lemma commit_Inl:
  assumes "commit s s1 = Inl e"
  shows "render s1 = Inl e \<or> lob_effect s1 = Inl e \<or> (\<exists>s2. lob_effect s1 = Inr s2 \<and> render s2 = Inl e)"
  using assms by (auto simp: commit_def split: sum.splits if_splits)

lemma lob_effect_loaded:
  assumes "jsonData s = Some data" and "lob_effect s = Inr s'"
  shows "if lob s = [] then s' = s
         else (\<exists>T x. SCXML_TARGET_APP_LISTS data = Some T \<and>
                   setState (js_get T (lob s)) (targetApps s) = Inr x \<and>
                   s' = s\<lparr>targetApps := x, targetApp := []\<rparr>)"
  using assms by (auto simp: lob_effect_def split: option.splits if_splits sum.splits)

lemma lob_effect_unset: "lob s = [] \<Longrightarrow> lob_effect s = Inr s"
  by (simp add: lob_effect_def split: option.splits)

lemma setState_present: "map_of T k = Some apps \<Longrightarrow> setState (js_get T k) prev = Inr (Arr apps)"
  by (simp add: js_get_def)

lemma lob_effect_present:
  assumes "jsonData s = Some data" and "SCXML_TARGET_APP_LISTS data = Some T"
    and "lob s \<noteq> []" and "map_of T (lob s) = Some apps"
  shows "lob_effect s = Inr (s\<lparr>targetApps := Arr apps, targetApp := []\<rparr>)"
  using assms by (simp add: lob_effect_def setState_present)

lemma selection_ok_iff:
  "selection_ok s \<longleftrightarrow>
     (\<exists>shown. targetApps s = Arr shown \<and> (jsonData s = None \<longrightarrow> lob s = []) \<and>
        (\<forall>m apps. jsonData s = Some m \<and> lob s \<noteq> [] \<and>
             member_at (SCXML_TARGET_APP_LISTS m) (lob s) = Some apps \<longrightarrow>
             shown = apps \<and> targetApp s \<in> set ([] # map option_value apps)))"
  by (auto simp: selection_ok_def split: js_value.splits option.splits)

lemma selection_ok_initial: "selection_ok initial_state"
  by (simp add: selection_ok_def initial_state_def)

text \<open>What each event does to the state.\<close>

lemma step_Change_lob:
  assumes "step tok (Change_lob v) s = Inr (s', sent)"
  shows "sent = [] \<and>
         (\<exists>data shown shown'. jsonData s = Some data \<and> targetApps s = Arr shown \<and>
            targetApps s' = Arr shown' \<and>
            v \<in> set ([] # map option_value (lobList s)) \<and>
            (if v = lob s then s' = s
             else if v = [] then s' = s\<lparr>lob := []\<rparr>
             else (\<exists>T. SCXML_TARGET_APP_LISTS data = Some T \<and>
                       setState (js_get T v) (Arr shown) = Inr (Arr shown') \<and>
                       s' = s\<lparr>lob := v, targetApps := Arr shown', targetApp := []\<rparr>)))"
proof -
  have "on_form s (\<lambda>f. if v \<in> set ([] # map option_value (tl (select_lob_options f)))
                        then quiet (onChange_lob v s) else Inl Not_offered) = Inr (s', sent)"
    using assms by simp
  from on_form_Inr [OF this] obtain f where f: "render s = Inr (Form f)"
    and h: "(if v \<in> set ([] # map option_value (tl (select_lob_options f)))
             then quiet (onChange_lob v s) else Inl Not_offered) = Inr (s', sent)"
    by blast
  obtain data shown where d: "jsonData s = Some data" and sh: "targetApps s = Arr shown"
    and lo: "select_lob_options f = [] # lobList s"
    using render_Form [OF f] by blast
  have off: "v \<in> set ([] # map option_value (lobList s))" using h lo by (simp split: if_splits)
  have q: "quiet (onChange_lob v s) = Inr (s', sent)" using h by (simp split: if_splits)
  have c: "commit s (s\<lparr>lob := v\<rparr>) = Inr s'" and e: "sent = []"
    using quiet_Inr [OF q] by (simp_all add: onChange_lob_def)
  note ci = commit_Inr [OF c]
  show ?thesis
  proof (cases "v = lob s")
    case True
    then have "s' = s" using ci by simp
    then show ?thesis using True d sh e off by simp
  next
    case False
    then have le: "lob_effect (s\<lparr>lob := v\<rparr>) = Inr s'" and r: "\<exists>w. render s' = Inr w"
      using ci by simp_all
    have d1: "jsonData (s\<lparr>lob := v\<rparr>) = Some data" using d by simp
    note ll = lob_effect_loaded [OF d1 le]
    show ?thesis
    proof (cases "v = []")
      case True
      then have "s' = s\<lparr>lob := []\<rparr>" using ll by simp
      then show ?thesis using True False sh d e off by simp
    next
      case nonempty: False
      then obtain T x where T: "SCXML_TARGET_APP_LISTS data = Some T"
        and x: "setState (js_get T v) (Arr shown) = Inr x"
        and s': "s' = s\<lparr>lob := v, targetApps := x, targetApp := []\<rparr>"
        using ll sh by auto
      have d2: "jsonData s' = Some data" using s' d by simp
      obtain w where "render s' = Inr w" using r by blast
      from render_not_Arr [OF d2 this] obtain shown' where a: "x = Arr shown'"
        using s' by auto
      show ?thesis using s' a x d sh T nonempty False e off by simp
    qed
  qed
qed

lemma step_Change_targetApp:
  assumes "step tok (Change_targetApp v) s = Inr (s', sent)"
  shows "sent = [] \<and> s' = s\<lparr>targetApp := v\<rparr> \<and> lob s \<noteq> [] \<and>
         (\<exists>data shown. jsonData s = Some data \<and> targetApps s = Arr shown \<and>
            v \<in> set ([] # map option_value shown))"
proof -
  have "on_form s (\<lambda>f. if select_target_disabled f = False \<and>
                           v \<in> set ([] # map option_value (tl (select_target_options f)))
                        then quiet (onChange_targetApp v s) else Inl Not_offered) = Inr (s', sent)"
    using assms by simp
  from on_form_Inr [OF this] obtain f where f: "render s = Inr (Form f)"
    and h: "(if select_target_disabled f = False \<and>
                v \<in> set ([] # map option_value (tl (select_target_options f)))
             then quiet (onChange_targetApp v s) else Inl Not_offered) = Inr (s', sent)"
    by blast
  obtain data shown where d: "jsonData s = Some data" and sh: "targetApps s = Arr shown"
    and opts: "select_target_options f = [] # shown" and dis: "select_target_disabled f = (lob s = [])"
    using render_Form [OF f] by blast
  have off: "lob s \<noteq> [] \<and> v \<in> set ([] # map option_value shown)"
    using h opts dis by (simp split: if_splits)
  have q: "quiet (onChange_targetApp v s) = Inr (s', sent)" using h by (simp split: if_splits)
  have c: "commit s (s\<lparr>targetApp := v\<rparr>) = Inr s'" and e: "sent = []"
    using quiet_Inr [OF q] by (simp_all add: onChange_targetApp_def)
  have s': "s' = s\<lparr>targetApp := v\<rparr>" using commit_same_deps [OF c] by simp
  show ?thesis using s' off sh d e by simp
qed

lemma step_text:
  assumes "on_form s (\<lambda>f. quiet (commit s s1)) = Inr (s', sent)"
    and "lob s1 = lob s" and "jsonData s1 = jsonData s"
  shows "sent = [] \<and> s' = s1 \<and> jsonData s \<noteq> None"
proof -
  from on_form_Inr [OF assms(1)] obtain f where f: "render s = Inr (Form f)"
    and q: "quiet (commit s s1) = Inr (s', sent)" by blast
  have c: "commit s s1 = Inr s'" and e: "sent = []" using quiet_Inr [OF q] by simp_all
  have "s' = s1" using commit_same_deps [OF c assms(2,3)] .
  then show ?thesis using e render_Form [OF f] by auto
qed

lemma step_Click_trigger:
  assumes "step tok Click_trigger s = Inr (s', sent)"
  shows "jsonData s \<noteq> None \<and>
         (if loading s then s' = s \<and> sent = []
          else s' = s\<lparr>loading := True, message := []\<rparr> \<and> sent = [snd (triggerWorkflow tok s)])"
proof -
  have c: "click_trigger tok s = Some (s', sent)"
    using assms by (simp split: option.splits)
  then obtain f where f: "render s = Inr (Form f)"
    by (auto simp: click_trigger_def split: sum.splits view.splits)
  obtain data where d: "jsonData s = Some data" and b: "button_disabled f = loading s"
    using render_Form [OF f] by blast
  show ?thesis using c f d b by (auto simp: click_trigger_def triggerWorkflow_def split: if_splits)
qed

lemma step_Dispatch_settled:
  assumes "step tok (Dispatch_settled ok) s = Inr (s', sent)"
  shows "sent = [] \<and> s' = triggerWorkflow_settled ok s"
proof -
  have q: "quiet (commit s (triggerWorkflow_settled ok s)) = Inr (s', sent)"
    using assms by simp
  have c: "commit s (triggerWorkflow_settled ok s) = Inr s'" and e: "sent = []"
    using quiet_Inr [OF q] by simp_all
  have "s' = triggerWorkflow_settled ok s"
    using commit_same_deps [OF c] by (simp add: triggerWorkflow_settled_def)
  then show ?thesis using e by simp
qed

lemma step_Load_resolved:
  assumes "step tok (Load_resolved data) s = Inr (s', sent)" and "lob s = []"
  shows "sent = [] \<and> s' = load_resolved data s"
proof -
  have q: "quiet (commit s (load_resolved data s)) = Inr (s', sent)"
    using assms(1) by (simp add: on_load_def)
  have c: "commit s (load_resolved data s) = Inr s'" and e: "sent = []"
    using quiet_Inr [OF q] by simp_all
  have l: "lob (load_resolved data s) = []"
    using assms(2) by (simp add: load_resolved_def split: option.splits)
  have "s' = load_resolved data s"
    using commit_Inr [OF c] lob_effect_unset [OF l] by (auto split: if_splits)
  then show ?thesis using e by simp
qed


lemma selection_okI:
  assumes "targetApps s = Arr shown" and "jsonData s = None \<Longrightarrow> lob s = []"
    and "\<And>m apps. jsonData s = Some m \<Longrightarrow> lob s \<noteq> [] \<Longrightarrow>
           member_at (SCXML_TARGET_APP_LISTS m) (lob s) = Some apps \<Longrightarrow>
           shown = apps \<and> targetApp s \<in> set ([] # map option_value apps)"
  shows "selection_ok s"
  unfolding selection_ok_iff using assms by (intro exI [of _ shown]) auto

lemma selection_ok_Arr: "selection_ok s \<Longrightarrow> \<exists>shown. targetApps s = Arr shown"
  unfolding selection_ok_iff by blast

lemma selection_ok_unloaded: "selection_ok s \<Longrightarrow> jsonData s = None \<Longrightarrow> lob s = []"
  unfolding selection_ok_iff by blast

lemma selection_ok_present:
  "selection_ok s \<Longrightarrow> jsonData s = Some m \<Longrightarrow> lob s \<noteq> [] \<Longrightarrow>
   member_at (SCXML_TARGET_APP_LISTS m) (lob s) = Some apps \<Longrightarrow>
   targetApps s = Arr apps \<and> targetApp s \<in> set ([] # map option_value apps)"
  unfolding selection_ok_iff by blast

lemma selection_ok_cong:
  "targetApps s1 = targetApps s \<Longrightarrow> jsonData s1 = jsonData s \<Longrightarrow> lob s1 = lob s \<Longrightarrow>
   targetApp s1 = targetApp s \<Longrightarrow> selection_ok s1 = selection_ok s"
  unfolding selection_ok_iff by simp

text \<open>Every event keeps the selection within what the dropdowns allow.\<close>

lemma selection_ok_Load_resolved:
  assumes "selection_ok s" and "jsonData s = None"
    and "step tok (Load_resolved data) s = Inr (s', sent)"
  shows "selection_ok s' \<and> sent = [] \<and> loading s' = loading s \<and> jsonData s' = Some data"
proof -
  have l: "lob s = []" using selection_ok_unloaded [OF assms(1,2)] .
  have a: "sent = []" and s': "s' = load_resolved data s"
    using step_Load_resolved [OF assms(3) l] by simp_all
  obtain shown where sh: "targetApps s = Arr shown" using selection_ok_Arr [OF assms(1)] by blast
  have f: "targetApps s' = Arr shown \<and> lob s' = [] \<and> loading s' = loading s \<and> jsonData s' = Some data"
    using s' sh l by (simp add: load_resolved_def split: option.splits)
  have "selection_ok s'"
  proof (rule selection_okI)
    show "targetApps s' = Arr shown" using f by simp
    show "lob s' = []" using f by simp
    show "shown = apps \<and> targetApp s' \<in> set ([] # map option_value apps)"
      if "lob s' \<noteq> []" for apps using that f by simp
  qed
  then show ?thesis using a f by simp
qed

lemma selection_ok_Change_lob:
  assumes "selection_ok s" and "step tok (Change_lob v) s = Inr (s', sent)"
  shows "selection_ok s' \<and> sent = [] \<and> loading s' = loading s \<and> jsonData s' = jsonData s \<and>
         jsonData s \<noteq> None"
proof -
  from step_Change_lob [OF assms(2)] obtain data shown shown' where
    e0: "sent = []" and d: "jsonData s = Some data" and sh: "targetApps s = Arr shown"
    and sh': "targetApps s' = Arr shown'"
    and c: "if v = lob s then s' = s
            else if v = [] then s' = s\<lparr>lob := []\<rparr>
            else (\<exists>T. SCXML_TARGET_APP_LISTS data = Some T \<and>
                      setState (js_get T v) (Arr shown) = Inr (Arr shown') \<and>
                      s' = s\<lparr>lob := v, targetApps := Arr shown', targetApp := []\<rparr>)"
    by blast
  show ?thesis
  proof (cases "v = lob s")
    case True
    then have "s' = s" using c by simp
    then show ?thesis using assms(1) e0 d by simp
  next
    case False
    show ?thesis
    proof (cases "v = []")
      case True
      then have s': "s' = s\<lparr>lob := []\<rparr>" using c False by simp
      have "selection_ok s'"
      proof (rule selection_okI)
        show "targetApps s' = Arr shown" using s' sh by simp
        show "lob s' = []" using s' by simp
        show "shown = apps \<and> targetApp s' \<in> set ([] # map option_value apps)"
          if "lob s' \<noteq> []" for apps using that s' by simp
      qed
      then show ?thesis using s' e0 d by simp
    next
      case nonempty: False
      then obtain T where T: "SCXML_TARGET_APP_LISTS data = Some T"
        and x: "setState (js_get T v) (Arr shown) = Inr (Arr shown')"
        and s': "s' = s\<lparr>lob := v, targetApps := Arr shown', targetApp := []\<rparr>"
        using c False by auto
      have "selection_ok s'"
      proof (rule selection_okI)
        show "targetApps s' = Arr shown'" using sh' .
        show "lob s' = []" if "jsonData s' = None" using that s' d by simp
        show "shown' = apps \<and> targetApp s' \<in> set ([] # map option_value apps)"
          if m: "jsonData s' = Some m" and a: "member_at (SCXML_TARGET_APP_LISTS m) (lob s') = Some apps"
          for m apps
        proof -
          have "m = data" using m s' d by simp
          then have "map_of T v = Some apps" using a T s' by (simp add: member_at_def)
          from setState_present [OF this, of "Arr shown"] x have "shown' = apps" by simp
          then show ?thesis using s' by simp
        qed
      qed
      then show ?thesis using s' e0 d by simp
    qed
  qed
qed

lemma selection_ok_Change_targetApp:
  assumes "selection_ok s" and "step tok (Change_targetApp v) s = Inr (s', sent)"
  shows "selection_ok s' \<and> sent = [] \<and> loading s' = loading s \<and> jsonData s' = jsonData s \<and>
         jsonData s \<noteq> None"
proof -
  from step_Change_targetApp [OF assms(2)] obtain data shown where
    e0: "sent = []" and s': "s' = s\<lparr>targetApp := v\<rparr>" and l: "lob s \<noteq> []"
    and d: "jsonData s = Some data" and sh: "targetApps s = Arr shown"
    and off: "v \<in> set ([] # map option_value shown)"
    by blast
  have "selection_ok s'"
  proof (rule selection_okI)
    show "targetApps s' = Arr shown" using s' sh by simp
    show "lob s' = []" if "jsonData s' = None" using that s' d by simp
    show "shown = apps \<and> targetApp s' \<in> set ([] # map option_value apps)"
      if m: "jsonData s' = Some m" and a: "member_at (SCXML_TARGET_APP_LISTS m) (lob s') = Some apps"
      for m apps
    proof -
      have m': "jsonData s = Some m" and a': "member_at (SCXML_TARGET_APP_LISTS m) (lob s) = Some apps"
        using m a s' by simp_all
      have "targetApps s = Arr apps" using selection_ok_present [OF assms(1) m' l a'] by simp
      then have "shown = apps" using sh by simp
      then show ?thesis using off s' by simp
    qed
  qed
  then show ?thesis using s' e0 d by simp
qed

lemma selection_ok_text:
  assumes "selection_ok s"
    and "on_form s (\<lambda>f. quiet (commit s s1)) = Inr (s', sent)"
    and "lob s1 = lob s" and "jsonData s1 = jsonData s" and "targetApps s1 = targetApps s"
    and "targetApp s1 = targetApp s" and "loading s1 = loading s"
  shows "selection_ok s' \<and> sent = [] \<and> loading s' = loading s \<and> jsonData s' = jsonData s \<and>
         jsonData s \<noteq> None"
proof -
  have a: "sent = []" and s': "s' = s1" and d: "jsonData s \<noteq> None"
    using step_text [OF assms(2,3,4)] by simp_all
  have "selection_ok s1" using selection_ok_cong [OF assms(5,4,3,6)] assms(1) by simp
  then show ?thesis using a s' d assms(4,7) by simp
qed

lemma selection_ok_Click_trigger:
  assumes "selection_ok s" and "step tok Click_trigger s = Inr (s', sent)"
  shows "selection_ok s' \<and> jsonData s' = jsonData s \<and> jsonData s \<noteq> None \<and> loading s' \<and>
         sent = (if loading s then [] else [snd (triggerWorkflow tok s)])"
proof -
  note a = step_Click_trigger [OF assms(2)]
  have d: "jsonData s \<noteq> None" using a by (rule conjunct1)
  show ?thesis
  proof (cases "loading s")
    case True
    have "s' = s \<and> sent = []" using a True by simp
    then have "s' = s" and "sent = []" by simp_all
    then show ?thesis using True assms(1) d by simp
  next
    case False
    have "s' = s\<lparr>loading := True, message := []\<rparr> \<and> sent = [snd (triggerWorkflow tok s)]"
      using a False by simp
    then have s': "s' = s\<lparr>loading := True, message := []\<rparr>"
      and t: "sent = [snd (triggerWorkflow tok s)]" by simp_all
    have f: "targetApps s' = targetApps s" "jsonData s' = jsonData s" "lob s' = lob s"
      "targetApp s' = targetApp s" "loading s'"
      unfolding s' by simp_all
    have "selection_ok s'" using selection_ok_cong [OF f(1-4)] assms(1) by simp
    then show ?thesis using False d f(2,5) t by simp
  qed
qed

lemma selection_ok_Dispatch_settled:
  assumes "selection_ok s" and "step tok (Dispatch_settled b) s = Inr (s', sent)"
  shows "selection_ok s' \<and> sent = [] \<and> loading s' = False \<and> jsonData s' = jsonData s"
proof -
  have a: "sent = []" and s': "s' = triggerWorkflow_settled b s"
    using step_Dispatch_settled [OF assms(2)] by simp_all
  have f: "targetApps s' = targetApps s" "jsonData s' = jsonData s" "lob s' = lob s"
    "targetApp s' = targetApp s" "loading s' = False"
    unfolding s' by (simp_all add: triggerWorkflow_settled_def)
  have "selection_ok s'" using selection_ok_cong [OF f(1-4)] assms(1) by simp
  then show ?thesis using a f(2,5) by simp
qed

text \<open>The requests in flight: every event keeps the invariant of a session.\<close>

lemma session_step_Inr:
  assumes "session_step tok ev ss = Inr (ss', sent)"
  shows "network_offers ss ev \<and> step tok ev (form ss) = Inr (form ss', sent) \<and>
         get_in_flight ss' = (if fst (answered ev) then False else get_in_flight ss) \<and>
         posts_in_flight ss' = posts_in_flight ss - snd (answered ev) + length sent"
proof -
  have n: "network_offers ss ev" using assms by (simp add: session_step_def split: if_splits)
  show ?thesis
  proof (cases "step tok ev (form ss)")
    case (Inl e)
    then show ?thesis using assms n by (simp add: session_step_def)
  next
    case (Inr p)
    have a: "session_step tok ev ss =
               Inr (\<lparr> form = fst p,
                      get_in_flight = (if fst (answered ev) then False else get_in_flight ss),
                      posts_in_flight = posts_in_flight ss - snd (answered ev) + length (snd p) \<rparr>,
                    snd p)"
      by (simp only: session_step_def n Inr if_True sum.case)
    have both:
      "\<lparr> form = fst p,
         get_in_flight = (if fst (answered ev) then False else get_in_flight ss),
         posts_in_flight = posts_in_flight ss - snd (answered ev) + length (snd p) \<rparr> = ss' \<and>
       snd p = sent"
      using assms unfolding a sum.inject prod.inject .
    have eq: "\<lparr> form = fst p,
                get_in_flight = (if fst (answered ev) then False else get_in_flight ss),
                posts_in_flight = posts_in_flight ss - snd (answered ev) + length (snd p) \<rparr> = ss'"
      using both by (rule conjunct1)
    have s: "snd p = sent" using both by (rule conjunct2)
    have f: "form ss' = fst p"
      and g: "get_in_flight ss' = (if fst (answered ev) then False else get_in_flight ss)"
      and q: "posts_in_flight ss' = posts_in_flight ss - snd (answered ev) + length (snd p)"
      unfolding eq [symmetric] by simp_all
    have "p = (form ss', sent)" unfolding f s [symmetric] by simp
    then have st: "step tok ev (form ss) = Inr (form ss', sent)" using Inr by simp
    have q': "posts_in_flight ss' = posts_in_flight ss - snd (answered ev) + length sent"
      using q unfolding s .
    show ?thesis using n st g q' by (intro conjI)
  qed
qed

lemma session_okI:
  "selection_ok (form ss) \<Longrightarrow> (get_in_flight ss \<Longrightarrow> jsonData (form ss) = None) \<Longrightarrow>
   posts_in_flight ss \<le> 1 \<Longrightarrow> loading (form ss) = (0 < posts_in_flight ss) \<Longrightarrow> session_ok ss"
  by (simp add: session_ok_def)

lemma session_okD:
  "session_ok ss \<Longrightarrow>
   selection_ok (form ss) \<and> (get_in_flight ss \<longrightarrow> jsonData (form ss) = None) \<and>
   posts_in_flight ss \<le> 1 \<and> loading (form ss) = (0 < posts_in_flight ss)"
  by (simp add: session_ok_def split: if_splits)

lemma session_ok_quiet:
  assumes "session_ok ss" and "selection_ok (form ss')" and "sent = []"
    and "loading (form ss') = loading (form ss)" and "jsonData (form ss') = jsonData (form ss)"
    and "get_in_flight ss' = get_in_flight ss"
    and "posts_in_flight ss' = posts_in_flight ss + length sent"
  shows "session_ok ss'"
proof (rule session_okI)
  note d = session_okD [OF assms(1)]
  show "selection_ok (form ss')" using assms(2) .
  show "jsonData (form ss') = None" if "get_in_flight ss'" using that d assms(5,6) by simp
  show "posts_in_flight ss' \<le> 1" using d assms(3,7) by simp
  show "loading (form ss') = (0 < posts_in_flight ss')" using d assms(3,4,7) by simp
qed

lemma session_step_ok:
  assumes ok: "session_ok ss" and st: "session_step tok ev ss = Inr (ss', sent)"
  shows "session_ok ss' \<and>
         (jsonData (form ss) \<noteq> None \<longrightarrow> jsonData (form ss') = jsonData (form ss)) \<and>
         (sent = [] \<or>
          jsonData (form ss) \<noteq> None \<and> loading (form ss) = False \<and>
          sent = [snd (triggerWorkflow tok (form ss))])"
proof -
  note e = session_step_Inr [OF st]
  note d = session_okD [OF ok]
  have sel: "selection_ok (form ss)" using d by simp
  show ?thesis
  proof (cases ev)
    case (Load_resolved data)
    have g: "get_in_flight ss" and s: "step tok (Load_resolved data) (form ss) = Inr (form ss', sent)"
      and g': "get_in_flight ss' = False"
      and p: "posts_in_flight ss' = posts_in_flight ss + length sent"
      using e unfolding Load_resolved by simp_all
    have n: "jsonData (form ss) = None" using g d by simp
    note a = selection_ok_Load_resolved [OF sel n s]
    have "session_ok ss'"
    proof (rule session_okI)
      show "selection_ok (form ss')" using a by simp
      show "jsonData (form ss') = None" if "get_in_flight ss'" using that g' by simp
      show "posts_in_flight ss' \<le> 1" using d a p by simp
      show "loading (form ss') = (0 < posts_in_flight ss')" using d a p by simp
    qed
    then show ?thesis using a n by simp
  next
    case Load_rejected
    have s: "step tok Load_rejected (form ss) = Inr (form ss', sent)"
      and g': "get_in_flight ss' = False"
      and p: "posts_in_flight ss' = posts_in_flight ss + length sent"
      using e unfolding Load_rejected by simp_all
    have a: "form ss' = form ss" "sent = []" using s by simp_all
    have "session_ok ss'"
    proof (rule session_okI)
      show "selection_ok (form ss')" using sel a(1) by simp
      show "jsonData (form ss') = None" if "get_in_flight ss'" using that g' by simp
      show "posts_in_flight ss' \<le> 1" using d a(2) p by simp
      show "loading (form ss') = (0 < posts_in_flight ss')" using d a p by simp
    qed
    then show ?thesis using a by simp
  next
    case (Change_lob v)
    have s: "step tok (Change_lob v) (form ss) = Inr (form ss', sent)"
      and g': "get_in_flight ss' = get_in_flight ss"
      and p: "posts_in_flight ss' = posts_in_flight ss + length sent"
      using e unfolding Change_lob by simp_all
    note a = selection_ok_Change_lob [OF sel s]
    have "session_ok ss'" using session_ok_quiet [OF ok _ _ _ _ g' p] a by blast
    then show ?thesis using a by simp
  next
    case (Change_targetApp v)
    have s: "step tok (Change_targetApp v) (form ss) = Inr (form ss', sent)"
      and g': "get_in_flight ss' = get_in_flight ss"
      and p: "posts_in_flight ss' = posts_in_flight ss + length sent"
      using e unfolding Change_targetApp by simp_all
    note a = selection_ok_Change_targetApp [OF sel s]
    have "session_ok ss'" using session_ok_quiet [OF ok _ _ _ _ g' p] a by blast
    then show ?thesis using a by simp
  next
    case (Change_projectName v)
    have s: "on_form (form ss) (\<lambda>f. quiet (commit (form ss) ((form ss)\<lparr>projectName := v\<rparr>))) =
               Inr (form ss', sent)"
      and g': "get_in_flight ss' = get_in_flight ss"
      and p: "posts_in_flight ss' = posts_in_flight ss + length sent"
      using e unfolding Change_projectName by simp_all
    have a: "selection_ok (form ss') \<and> sent = [] \<and> loading (form ss') = loading (form ss) \<and>
             jsonData (form ss') = jsonData (form ss) \<and> jsonData (form ss) \<noteq> None"
      by (rule selection_ok_text [OF sel s]) simp_all
    have "session_ok ss'" using session_ok_quiet [OF ok _ _ _ _ g' p] a by blast
    then show ?thesis using a by simp
  next
    case (Change_releaseType v)
    have s: "on_form (form ss) (\<lambda>f. quiet (commit (form ss) ((form ss)\<lparr>releaseType := v\<rparr>))) =
               Inr (form ss', sent)"
      and g': "get_in_flight ss' = get_in_flight ss"
      and p: "posts_in_flight ss' = posts_in_flight ss + length sent"
      using e unfolding Change_releaseType by simp_all
    have a: "selection_ok (form ss') \<and> sent = [] \<and> loading (form ss') = loading (form ss) \<and>
             jsonData (form ss') = jsonData (form ss) \<and> jsonData (form ss) \<noteq> None"
      by (rule selection_ok_text [OF sel s]) simp_all
    have "session_ok ss'" using session_ok_quiet [OF ok _ _ _ _ g' p] a by blast
    then show ?thesis using a by simp
  next
    case (Change_releaseDescription v)
    have s: "on_form (form ss) (\<lambda>f. quiet (commit (form ss) ((form ss)\<lparr>releaseDescription := v\<rparr>))) =
               Inr (form ss', sent)"
      and g': "get_in_flight ss' = get_in_flight ss"
      and p: "posts_in_flight ss' = posts_in_flight ss + length sent"
      using e unfolding Change_releaseDescription by simp_all
    have a: "selection_ok (form ss') \<and> sent = [] \<and> loading (form ss') = loading (form ss) \<and>
             jsonData (form ss') = jsonData (form ss) \<and> jsonData (form ss) \<noteq> None"
      by (rule selection_ok_text [OF sel s]) simp_all
    have "session_ok ss'" using session_ok_quiet [OF ok _ _ _ _ g' p] a by blast
    then show ?thesis using a by simp
  next
    case Click_trigger
    have s: "step tok Click_trigger (form ss) = Inr (form ss', sent)"
      and g': "get_in_flight ss' = get_in_flight ss"
      and p: "posts_in_flight ss' = posts_in_flight ss + length sent"
      using e unfolding Click_trigger by simp_all
    note a = selection_ok_Click_trigger [OF sel s]
    have j: "jsonData (form ss') = jsonData (form ss)" and l': "loading (form ss')"
      and sel': "selection_ok (form ss')" using a by simp_all
    have "session_ok ss'"
    proof (rule session_okI)
      show "selection_ok (form ss')" using sel' .
      show "jsonData (form ss') = None" if "get_in_flight ss'" using that d g' j by simp
      show "posts_in_flight ss' \<le> 1" using d a p by (cases "loading (form ss)") simp_all
      show "loading (form ss') = (0 < posts_in_flight ss')"
        using d a p l' by (cases "loading (form ss)") simp_all
    qed
    then show ?thesis using a by (cases "loading (form ss)") simp_all
  next
    case (Dispatch_settled b)
    have n: "0 < posts_in_flight ss"
      and s: "step tok (Dispatch_settled b) (form ss) = Inr (form ss', sent)"
      and g': "get_in_flight ss' = get_in_flight ss"
      and p: "posts_in_flight ss' = posts_in_flight ss - 1 + length sent"
      using e unfolding Dispatch_settled by simp_all
    note a = selection_ok_Dispatch_settled [OF sel s]
    have "session_ok ss'"
    proof (rule session_okI)
      show "selection_ok (form ss')" using a by simp
      show "jsonData (form ss') = None" if "get_in_flight ss'" using that d g' a by simp
      show "posts_in_flight ss' \<le> 1" using d a p by simp
      show "loading (form ss') = (0 < posts_in_flight ss')" using d a p n by simp
    qed
    then show ?thesis using a by simp
  qed
qed

lemma session_ok_mounted: "session_ok (mounted initial_state)"
proof (rule session_okI)
  show "selection_ok (form (mounted initial_state))"
    by (simp add: mounted_def selection_ok_initial)
  show "jsonData (form (mounted initial_state)) = None"
    by (simp add: mounted_def initial_state_def)
  show "posts_in_flight (mounted initial_state) \<le> 1" by (simp add: mounted_def)
  show "loading (form (mounted initial_state)) = (0 < posts_in_flight (mounted initial_state))"
    by (simp add: mounted_def initial_state_def)
qed

lemma session_run_Cons:
  assumes "session_run tok (ev # evs) ss = Inr (ss', sent)"
  shows "\<exists>ss1 sent1 sent2. session_step tok ev ss = Inr (ss1, sent1) \<and>
           session_run tok evs ss1 = Inr (ss', sent2) \<and> sent = sent1 @ sent2"
  using assms by (auto split: sum.splits)

lemma session_run_snoc:
  "session_run tok (evs @ [ev]) ss =
     (case session_run tok evs ss of
        Inl e \<Rightarrow> Inl e
      | Inr p \<Rightarrow>
          (case session_step tok ev (fst p) of
             Inl e \<Rightarrow> Inl e
           | Inr q \<Rightarrow> Inr (fst q, snd p @ snd q)))"
proof (induction evs arbitrary: ss)
  case Nil
  show ?case by (simp split: sum.splits)
next
  case (Cons a evs)
  show ?case by (simp add: Cons.IH split: sum.splits)
qed

lemma run_Inr:
  "run tok evs s = Inr (s', sent) \<Longrightarrow>
   \<exists>ss. session_run tok evs (mounted s) = Inr (ss, sent) \<and> form ss = s'"
  by (auto simp: run_def split: sum.splits)

lemma run_Thrown:
  "run tok evs s = Inl e \<Longrightarrow> session_run tok evs (mounted s) = Inl e"
  by (auto simp: run_def split: sum.splits)

text \<open>What a session sends stays within what the dropdowns allow.\<close>

lemma lobKeys_member:
  assumes "k \<in> set (lobKeys m)"
  shows "\<exists>apps. member_at (SCXML_TARGET_APP_LISTS m) k = Some apps"
proof (cases "SCXML_TARGET_APP_LISTS m")
  case None
  then have "lobKeys m = []" by (simp add: lobKeys_def load_resolved_def initial_state_def)
  then show ?thesis using assms by simp
next
  case (Some T)
  have "k \<in> set (map fst T)" using assms lobKeys_set [OF Some] by simp
  then have "map_of T k \<noteq> None" by (simp add: map_of_eq_None_iff)
  then show ?thesis using Some by (auto simp: member_at_def)
qed

lemma selection_ok_pairing:
  assumes "selection_ok s" and "jsonData s = Some m"
  shows "lob s = [] \<or> lob s \<notin> set (lobKeys m) \<or> targetApp s = [] \<or>
         targetApp s \<in> option_value ` targetApps_of m (lob s)"
proof (cases "lob s \<noteq> [] \<and> lob s \<in> set (lobKeys m)")
  case False
  then show ?thesis by blast
next
  case True
  then have l: "lob s \<noteq> []" and k: "lob s \<in> set (lobKeys m)" by simp_all
  from lobKeys_member [OF k] obtain apps where
    a: "member_at (SCXML_TARGET_APP_LISTS m) (lob s) = Some apps" by blast
  have "targetApp s \<in> set ([] # map option_value apps)"
    using selection_ok_present [OF assms l a] by simp
  moreover have "targetApps_of m (lob s) = set apps" using a by (simp add: targetApps_of_def)
  ultimately show ?thesis by auto
qed

lemma session_run_ok:
  assumes "session_ok ss" and "session_run tok evs ss = Inr (ss', sent)"
  shows "session_ok ss' \<and>
         (jsonData (form ss) \<noteq> None \<longrightarrow> jsonData (form ss') = jsonData (form ss)) \<and>
         (\<forall>r \<in> set sent. \<exists>m. jsonData (form ss') = Some m \<and>
            (input_of r ''lob'' = [] \<or> input_of r ''lob'' \<notin> set (lobKeys m) \<or>
             input_of r ''target_app'' = [] \<or>
             input_of r ''target_app'' \<in> option_value ` targetApps_of m (input_of r ''lob'')))"
  using assms
proof (induction evs arbitrary: ss ss' sent)
  case Nil
  then show ?case by simp
next
  case (Cons ev evs)
  from session_run_Cons [OF Cons.prems(2)] obtain ss1 sent1 sent2 where
    st: "session_step tok ev ss = Inr (ss1, sent1)"
    and rn: "session_run tok evs ss1 = Inr (ss', sent2)"
    and eq: "sent = sent1 @ sent2"
    by blast
  note a = session_step_ok [OF Cons.prems(1) st]
  have ok1: "session_ok ss1" using a by simp
  note b = Cons.IH [OF ok1 rn]
  have stable1: "jsonData (form ss1) \<noteq> None \<longrightarrow> jsonData (form ss') = jsonData (form ss1)"
    using b by simp
  have stable: "jsonData (form ss) \<noteq> None \<longrightarrow> jsonData (form ss') = jsonData (form ss)"
    using a stable1 by auto
  have first: "\<exists>m. jsonData (form ss') = Some m \<and>
            (input_of r ''lob'' = [] \<or> input_of r ''lob'' \<notin> set (lobKeys m) \<or>
             input_of r ''target_app'' = [] \<or>
             input_of r ''target_app'' \<in> option_value ` targetApps_of m (input_of r ''lob''))"
    if "r \<in> set sent1" for r
  proof -
    have ne: "sent1 \<noteq> []" using that by auto
    then have j: "jsonData (form ss) \<noteq> None" and s1: "sent1 = [snd (triggerWorkflow tok (form ss))]"
      using a by auto
    then have r: "r = snd (triggerWorkflow tok (form ss))" using that by simp
    obtain m where m: "jsonData (form ss) = Some m" using j by auto
    have m': "jsonData (form ss') = Some m" using stable m by simp
    have sel: "selection_ok (form ss)" using session_okD [OF Cons.prems(1)] by simp
    have l: "input_of r ''lob'' = lob (form ss)" and t: "input_of r ''target_app'' = targetApp (form ss)"
      unfolding r using input_of_triggerWorkflow [of tok "form ss"] by simp_all
    show ?thesis using selection_ok_pairing [OF sel m] m' unfolding l t by blast
  qed
  have rest: "\<exists>m. jsonData (form ss') = Some m \<and>
            (input_of r ''lob'' = [] \<or> input_of r ''lob'' \<notin> set (lobKeys m) \<or>
             input_of r ''target_app'' = [] \<or>
             input_of r ''target_app'' \<in> option_value ` targetApps_of m (input_of r ''lob''))"
    if "r \<in> set sent2" for r using b that by blast
  have all: "\<forall>r \<in> set sent. \<exists>m. jsonData (form ss') = Some m \<and>
            (input_of r ''lob'' = [] \<or> input_of r ''lob'' \<notin> set (lobKeys m) \<or>
             input_of r ''target_app'' = [] \<or>
             input_of r ''target_app'' \<in> option_value ` targetApps_of m (input_of r ''lob''))"
    unfolding eq using first rest by auto
  have "session_ok ss'" using b by simp
  then show ?case using stable all by blast
qed

lemma step_click_enabled:
  assumes "jsonData s = Some m" and "targetApps s = Arr shown" and "loading s = False"
  shows "step tok Click_trigger s =
           Inr (s\<lparr>loading := True, message := []\<rparr>, [snd (triggerWorkflow tok s)])"
  using assms by (simp add: click_trigger_def render_def triggerWorkflow_def)

lemma run_click_enabled:
  assumes "run tok evs initial_state = Inr (s, sent)" and "jsonData s \<noteq> None" and "loading s = False"
  shows "run tok (evs @ [Click_trigger]) initial_state =
           Inr (s\<lparr>loading := True, message := []\<rparr>, sent @ [snd (triggerWorkflow tok s)])"
proof -
  from run_Inr [OF assms(1)] obtain ss where
    rn: "session_run tok evs (mounted initial_state) = Inr (ss, sent)" and f: "form ss = s" by blast
  have ok: "session_ok ss" using session_run_ok [OF session_ok_mounted rn] by simp
  have sel: "selection_ok s" using session_okD [OF ok] f by simp
  obtain shown where sh: "targetApps s = Arr shown" using selection_ok_Arr [OF sel] by blast
  obtain m where m: "jsonData s = Some m" using assms(2) by auto
  have st: "step tok Click_trigger (form ss) =
              Inr (s\<lparr>loading := True, message := []\<rparr>, [snd (triggerWorkflow tok s)])"
    unfolding f using step_click_enabled [OF m sh assms(3)] .
  have "session_step tok Click_trigger ss =
          Inr (\<lparr> form = s\<lparr>loading := True, message := []\<rparr>, get_in_flight = get_in_flight ss,
                 posts_in_flight = posts_in_flight ss + 1 \<rparr>, [snd (triggerWorkflow tok s)])"
    unfolding session_step_def st by simp
  then show ?thesis unfolding run_def session_run_snoc rn by simp
qed

text \<open>
  A LOB option reports the name of an inherited member when a key is that name with white
  space around it. For \<open>constructor\<close> the state setter takes the inherited function as an
  updater and keeps the apps shown before, so a target app of the LOB selected before can
  be sent with it.
\<close>

lemma dispatch_of_inherited_name:
  "map (\<lambda>r. (input_of r ''lob'', input_of r ''target_app''))
     (requests_of
        (run None [Load_resolved manifest_inherited_name, Change_lob ''CL1'',
                   Change_lob ''constructor'', Change_targetApp ''AppX'', Click_trigger]
           initial_state)) =
     [(''constructor'', ''AppX'')]
   \<and> member_at (SCXML_TARGET_APP_LISTS manifest_inherited_name) ''constructor'' = None"
  by (simp add: ui_defs input_of_def manifest_inherited_name_def member_at_def)

text \<open>
  C2 (as amended). In every session a dispatch payload is emitted on each click of the
  enabled trigger button, with the selected LOB and target app as they stand and without
  a re-confirmation of the pairing. What the dropdowns allow bounds what is sent: every
  emitted payload was sent with the manifest loaded, and it carries an unset LOB, or a LOB
  that is no key of \<open>SCXML_TARGET_APP_LISTS\<close>, or an unset target app, or a target app
  that is the value of an option offered for an app of that LOB.
\<close>

theorem dispatch_on_click_within_offered:
  assumes "run tok evs initial_state = Inr (s, sent)"
  shows "(jsonData s \<noteq> None \<and> loading s = False \<longrightarrow>
            (\<exists>r. run tok (evs @ [Click_trigger]) initial_state =
                    Inr (s\<lparr>loading := True, message := []\<rparr>, sent @ [r]) \<and>
                 input_of r ''lob'' = lob s \<and> input_of r ''target_app'' = targetApp s)) \<and>
         (\<forall>r \<in> set sent. \<exists>m. jsonData s = Some m \<and>
            (input_of r ''lob'' = [] \<or> input_of r ''lob'' \<notin> set (lobKeys m) \<or>
             input_of r ''target_app'' = [] \<or>
             input_of r ''target_app'' \<in> option_value ` targetApps_of m (input_of r ''lob'')))"
proof -
  from run_Inr [OF assms] obtain ss where
    rn: "session_run tok evs (mounted initial_state) = Inr (ss, sent)" and f: "form ss = s" by blast
  have bound: "\<forall>r \<in> set sent. \<exists>m. jsonData s = Some m \<and>
            (input_of r ''lob'' = [] \<or> input_of r ''lob'' \<notin> set (lobKeys m) \<or>
             input_of r ''target_app'' = [] \<or>
             input_of r ''target_app'' \<in> option_value ` targetApps_of m (input_of r ''lob''))"
    using session_run_ok [OF session_ok_mounted rn] unfolding f by blast
  have click: "\<exists>r. run tok (evs @ [Click_trigger]) initial_state =
                    Inr (s\<lparr>loading := True, message := []\<rparr>, sent @ [r]) \<and>
                 input_of r ''lob'' = lob s \<and> input_of r ''target_app'' = targetApp s"
    if "jsonData s \<noteq> None" and "loading s = False"
    using run_click_enabled [OF assms that] input_of_triggerWorkflow [of tok s] by blast
  show ?thesis using bound click by blast
qed

text \<open>
  The theorem at the session that selects \<open>CL1\<close> and \<open>AppX\<close>, clicks, and has the
  dispatch answered: the payload is within the bound, and a second click sends it again.
\<close>

theorem dispatch_on_click_within_offered_witness:
  "\<exists>s r. run None
            [Load_resolved manifest_scenario, Change_lob ''CL1'', Change_targetApp ''AppX'',
             Click_trigger, Dispatch_settled True]
            initial_state = Inr (s, [r]) \<and>
         jsonData s = Some manifest_scenario \<and> loading s = False \<and>
         input_of r ''lob'' = ''CL1'' \<and> input_of r ''target_app'' = ''AppX'' \<and>
         ''CL1'' \<in> set (lobKeys manifest_scenario) \<and>
         ''AppX'' \<in> option_value ` targetApps_of manifest_scenario ''CL1'' \<and>
         (\<exists>r'. run None
                  ([Load_resolved manifest_scenario, Change_lob ''CL1'', Change_targetApp ''AppX'',
                    Click_trigger, Dispatch_settled True] @ [Click_trigger])
                  initial_state = Inr (s\<lparr>loading := True, message := []\<rparr>, [r, r']) \<and>
                input_of r' ''lob'' = ''CL1'' \<and> input_of r' ''target_app'' = ''AppX'')"
proof -
  have "\<exists>s r. run None
            [Load_resolved manifest_scenario, Change_lob ''CL1'', Change_targetApp ''AppX'',
             Click_trigger, Dispatch_settled True]
            initial_state = Inr (s, [r]) \<and>
         jsonData s = Some manifest_scenario \<and> loading s = False \<and>
         lob s = ''CL1'' \<and> targetApp s = ''AppX'' \<and>
         input_of r ''lob'' = ''CL1'' \<and> input_of r ''target_app'' = ''AppX''"
    by (simp add: ui_defs input_of_def manifest_scenario_def)
  then obtain s r where
    rn: "run None
            [Load_resolved manifest_scenario, Change_lob ''CL1'', Change_targetApp ''AppX'',
             Click_trigger, Dispatch_settled True]
            initial_state = Inr (s, [r])"
    and j: "jsonData s = Some manifest_scenario" and lo: "loading s = False"
    and ls: "lob s = ''CL1''" and ts: "targetApp s = ''AppX''"
    and l: "input_of r ''lob'' = ''CL1''" and t: "input_of r ''target_app'' = ''AppX''" by blast
  have k: "''CL1'' \<in> set (lobKeys manifest_scenario)"
    by (simp add: lobKeys_def load_resolved_def Object_keys_def is_array_index_def
        initial_state_def manifest_scenario_def)
  note th = dispatch_on_click_within_offered [OF rn]
  have a: "\<exists>r'. run None
                  ([Load_resolved manifest_scenario, Change_lob ''CL1'', Change_targetApp ''AppX'',
                    Click_trigger, Dispatch_settled True] @ [Click_trigger])
                  initial_state = Inr (s\<lparr>loading := True, message := []\<rparr>, [r, r']) \<and>
                input_of r' ''lob'' = ''CL1'' \<and> input_of r' ''target_app'' = ''AppX''"
    using th j lo ls ts by simp
  have "\<exists>m. jsonData s = Some m \<and>
            (input_of r ''lob'' = [] \<or> input_of r ''lob'' \<notin> set (lobKeys m) \<or>
             input_of r ''target_app'' = [] \<or>
             input_of r ''target_app'' \<in> option_value ` targetApps_of m (input_of r ''lob''))"
    using th by simp
  then have b: "''AppX'' \<in> option_value ` targetApps_of manifest_scenario ''CL1''"
    unfolding l t j using k by simp
  show ?thesis using rn j lo l t k a b by blast
qed

text \<open>
  C2 as stated fails: the form sends the dispatch without a check. After \<open>CL1\<close> has been
  selected a click sends it with the unset target app, which is no app of \<open>CL1\<close>.
\<close>

theorem dispatch_without_validation:
  "map (\<lambda>r. (input_of r ''lob'', input_of r ''target_app''))
     (requests_of
        (run None [Load_resolved manifest_scenario, Change_lob ''CL1'', Click_trigger] initial_state)) =
     [(''CL1'', [])]
   \<and> [] \<notin> targetApps_of manifest_scenario ''CL1''"
  by (simp add: ui_defs input_of_def manifest_scenario_def targetApps_of_def member_at_def)

text \<open>
  C10. Whenever the form is shown, a click on the trigger button does nothing while the
  button is disabled, and otherwise sends one POST whose inputs are the current values of
  the state, whatever they are: nothing is required of \<open>lob\<close> or \<open>targetApp\<close>. In every
  session at most one dispatch is in flight, and the button is disabled exactly while one
  is: it is enabled again when the answer to the dispatch arrives.
\<close>

theorem click_sends_current_selection:
  "(render s = Inr (Form f) \<longrightarrow>
      (loading s \<longrightarrow> click_trigger tok s = Some (s, [])) \<and>
      (\<not> loading s \<longrightarrow>
         (\<exists>r. click_trigger tok s = Some (s\<lparr>loading := True, message := []\<rparr>, [r]) \<and>
              http_method r = ''POST'' \<and>
              request_inputs r =
                JObject
                  [(''lob'', JString (lob s)), (''target_app'', JString (targetApp s)),
                   (''project_name'', JString (projectName s)),
                   (''release_type'', JString (releaseType s)),
                   (''release_description'', JString (releaseDescription s))]))) \<and>
   (session_run tok evs (mounted initial_state) = Inr (ss, sent) \<longrightarrow>
      posts_in_flight ss \<le> 1 \<and>
      loading (form ss) = (0 < posts_in_flight ss) \<and>
      (\<forall>v. render (form ss) = Inr (Form v) \<longrightarrow> button_disabled v = (0 < posts_in_flight ss)))"
proof -
  have a: "(loading s \<longrightarrow> click_trigger tok s = Some (s, [])) \<and>
      (\<not> loading s \<longrightarrow>
         (\<exists>r. click_trigger tok s = Some (s\<lparr>loading := True, message := []\<rparr>, [r]) \<and>
              http_method r = ''POST'' \<and>
              request_inputs r =
                JObject
                  [(''lob'', JString (lob s)), (''target_app'', JString (targetApp s)),
                   (''project_name'', JString (projectName s)),
                   (''release_type'', JString (releaseType s)),
                   (''release_description'', JString (releaseDescription s))]))"
    if "render s = Inr (Form f)"
    using that
    by (auto simp: click_trigger_def render_def triggerWorkflow_def dispatch_body_def request_inputs_def
        split: option.splits js_value.splits)
  have b: "posts_in_flight ss \<le> 1 \<and>
      loading (form ss) = (0 < posts_in_flight ss) \<and>
      (\<forall>v. render (form ss) = Inr (Form v) \<longrightarrow> button_disabled v = (0 < posts_in_flight ss))"
    if rn: "session_run tok evs (mounted initial_state) = Inr (ss, sent)"
  proof -
    have ok: "session_ok ss" using session_run_ok [OF session_ok_mounted rn] by simp
    note d = session_okD [OF ok]
    have "button_disabled v = (0 < posts_in_flight ss)" if "render (form ss) = Inr (Form v)" for v
      using render_Form [OF that] d by auto
    then show ?thesis using d by blast
  qed
  show ?thesis using a b by blast
qed

text \<open>
  The theorem at the form right after loading, with nothing selected, and at the session
  that clicks twice, has the dispatch answered and clicks again: the first and the third
  click send.
\<close>

theorem click_sends_current_selection_witness:
  "(\<exists>f. render form_loaded = Inr (Form f)) \<and>
   lob form_loaded = [] \<and> targetApp form_loaded = [] \<and> loading form_loaded = False \<and>
   (\<exists>r. click_trigger None form_loaded = Some (form_loaded\<lparr>loading := True, message := []\<rparr>, [r]) \<and>
        http_method r = ''POST'' \<and>
        request_inputs r =
          JObject
            [(''lob'', JString []), (''target_app'', JString []), (''project_name'', JString []),
             (''release_type'', JString []), (''release_description'', JString [])]) \<and>
   (\<exists>ss r1 r2.
      session_run None
        [Load_resolved manifest_two_lobs, Click_trigger, Click_trigger, Dispatch_settled True,
         Click_trigger]
        (mounted initial_state) = Inr (ss, [r1, r2]) \<and>
      posts_in_flight ss = 1 \<and> loading (form ss) = True \<and>
      (\<forall>v. render (form ss) = Inr (Form v) \<longrightarrow> button_disabled v = True))"
proof -
  have 1: "\<exists>f. render form_loaded = Inr (Form f)"
    by (simp add: form_loaded_def load_resolved_def manifest_two_lobs_def render_def initial_state_def)
  then obtain f where f: "render form_loaded = Inr (Form f)" by blast
  have 2: "lob form_loaded = [] \<and> targetApp form_loaded = [] \<and> loading form_loaded = False \<and>
           projectName form_loaded = [] \<and> releaseType form_loaded = [] \<and>
           releaseDescription form_loaded = []"
    by (simp add: form_loaded_def load_resolved_def manifest_two_lobs_def initial_state_def)
  have "\<exists>ss r1 r2.
      session_run None
        [Load_resolved manifest_two_lobs, Click_trigger, Click_trigger, Dispatch_settled True,
         Click_trigger]
        (mounted initial_state) = Inr (ss, [r1, r2]) \<and> posts_in_flight ss = 1"
    by (simp add: ui_defs manifest_two_lobs_def)
  then obtain ss r1 r2 where
    rn: "session_run None
        [Load_resolved manifest_two_lobs, Click_trigger, Click_trigger, Dispatch_settled True,
         Click_trigger]
        (mounted initial_state) = Inr (ss, [r1, r2])"
    and p: "posts_in_flight ss = 1" by blast
  note th = click_sends_current_selection [of form_loaded f None
      "[Load_resolved manifest_two_lobs, Click_trigger, Click_trigger, Dispatch_settled True,
        Click_trigger]" ss "[r1, r2]"]
  have 3: "\<exists>r. click_trigger None form_loaded = Some (form_loaded\<lparr>loading := True, message := []\<rparr>, [r]) \<and>
        http_method r = ''POST'' \<and>
        request_inputs r =
          JObject
            [(''lob'', JString []), (''target_app'', JString []), (''project_name'', JString []),
             (''release_type'', JString []), (''release_description'', JString [])]"
    using th f 2 by simp
  have 4: "loading (form ss) = True \<and>
           (\<forall>v. render (form ss) = Inr (Form v) \<longrightarrow> button_disabled v = True)"
    using th rn p by simp
  show ?thesis using 1 2 3 4 rn p by blast
qed

end
